theory Spec2Isabelle
  imports Complex_Main "HOL-Library.Word"
begin

section \<open>Machine values and undefined behaviour\<close>

text \<open>
  \<open>unsigned char\<close> is an 8-bit word, \<open>unsigned int\<close> a 32-bit word whose arithmetic
  wraps around, and \<open>int\<close> a 32-bit word read in two's complement with \<open>sint\<close>.
  Behaviour that C++ leaves undefined is a value of \<open>error\<close>: an access outside an
  allocated array, an access through a null pointer, an \<open>int\<close> computation that leaves
  the range of \<open>int\<close>, a \<open>delete[]\<close> of something that was never allocated, the
  use of a reference to no object, and the conversion to \<open>int\<close> of a \<open>double\<close> whose
  truncation is not an \<open>int\<close>.
\<close>

type_synonym byte = "8 word"
type_synonym uint = "32 word"
type_synonym cint = "32 word"

datatype error =
  OutOfBounds | NullPointer | SignedOverflow | InvalidDelete | InvalidReference | CastOutOfRange

definition bind_err :: "error + 'a \<Rightarrow> ('a \<Rightarrow> error + 'b) \<Rightarrow> error + 'b" where
  "bind_err m f = (case m of Inl e \<Rightarrow> Inl e | Inr v \<Rightarrow> f v)"

text \<open>\<open>for (i = i0; i < n; ++i) body\<close>, over the list of the values that \<open>i\<close> takes.\<close>

fun for_loop :: "nat list \<Rightarrow> (nat \<Rightarrow> 's \<Rightarrow> error + 's) \<Rightarrow> 's \<Rightarrow> error + 's" where
  "for_loop [] body s = Inr s"
| "for_loop (i # is) body s =
     (case body i s of Inl e \<Rightarrow> Inl e | Inr s' \<Rightarrow> for_loop is body s')"

text \<open>
  The contents of freshly allocated memory are indeterminate. An allocation takes them
  from an argument, a function from row and column to the byte found there, and the
  theorems hold for every such function.
\<close>

type_synonym garbage = "nat \<Rightarrow> nat \<Rightarrow> byte"

section \<open>Point\<close>

text \<open>The fields \<open>x\<close> and \<open>y\<close> of the struct, both \<open>int\<close>.\<close>

record Point =
  Point_x :: cint
  Point_y :: cint

definition getX :: "Point \<Rightarrow> cint" where
  "getX p = Point_x p"

definition getY :: "Point \<Rightarrow> cint" where
  "getY p = Point_y p"

section \<open>Image\<close>

text \<open>
  \<open>m_data\<close> is \<open>None\<close> for the null pointer and otherwise the list of the allocated rows,
  each the list of its bytes.
\<close>

record Image =
  m_data :: "byte list list option"
  m_width :: uint
  m_height :: uint
  m_isGrayscale :: bool

text \<open>
  The state every constructor, \<open>load\<close>, \<open>release\<close> and assignment establishes: a null
  buffer comes with zero dimensions, an allocated one has \<open>m_height\<close> rows of
  \<open>m_width\<close> bytes.
\<close>

definition wf_image :: "Image \<Rightarrow> bool" where
  "wf_image img =
     (case m_data img of
        None \<Rightarrow> m_width img = 0 \<and> m_height img = 0
      | Some rows \<Rightarrow> length rows = unat (m_height img)
                   \<and> (\<forall>r \<in> set rows. length r = unat (m_width img)))"

text \<open>The pixel in column \<open>x\<close> of row \<open>y\<close> , for stating results.\<close>

definition pixel :: "Image \<Rightarrow> nat \<Rightarrow> nat \<Rightarrow> byte" where
  "pixel img x y = the (m_data img) ! y ! x"

text \<open>\<open>Image::Image()\<close>\<close>

definition Image_default :: Image where
  "Image_default = \<lparr>m_data = None, m_width = 0, m_height = 0, m_isGrayscale = True\<rparr>"

text \<open>\<open>allocateMemory\<close>: \<open>m_height\<close> new rows of \<open>m_width\<close> bytes, not initialised.\<close>

definition allocateMemory :: "garbage \<Rightarrow> Image \<Rightarrow> Image" where
  "allocateMemory g img =
     img\<lparr>m_data := Some (map (\<lambda>i. map (\<lambda>j. g i j) [0..<unat (m_width img)])
                              [0..<unat (m_height img)])\<rparr>"

text \<open>
  \<open>deallocateMemory\<close>: unless the pointer is null, deletes \<open>m_data[i]\<close> for every
  \<open>i < m_height\<close> and then the array of rows. Deleting a row that the array does not have
  is undefined.
\<close>

definition deallocateMemory :: "Image \<Rightarrow> error + Image" where
  "deallocateMemory img =
     (case m_data img of
        None \<Rightarrow> Inr img
      | Some rows \<Rightarrow>
          if unat (m_height img) \<le> length rows then Inr (img\<lparr>m_data := None\<rparr>)
          else Inl InvalidDelete)"

text \<open>\<open>Image::Image(unsigned int w, unsigned int h)\<close>\<close>

definition Image_ctor :: "garbage \<Rightarrow> uint \<Rightarrow> uint \<Rightarrow> Image" where
  "Image_ctor g w h =
     allocateMemory g \<lparr>m_data = None, m_width = w, m_height = h, m_isGrayscale = True\<rparr>"

text \<open>The expressions \<open>m_data[y][x]\<close> as a read and as the target of an assignment.\<close>

definition data_read :: "Image \<Rightarrow> nat \<Rightarrow> nat \<Rightarrow> error + byte" where
  "data_read img y x =
     (case m_data img of
        None \<Rightarrow> Inl NullPointer
      | Some rows \<Rightarrow>
          if y < length rows \<and> x < length (rows ! y) then Inr (rows ! y ! x)
          else Inl OutOfBounds)"

definition data_write :: "Image \<Rightarrow> nat \<Rightarrow> nat \<Rightarrow> byte \<Rightarrow> error + Image" where
  "data_write img y x v =
     (case m_data img of
        None \<Rightarrow> Inl NullPointer
      | Some rows \<Rightarrow>
          if y < length rows \<and> x < length (rows ! y)
          then Inr (img\<lparr>m_data := Some (rows[y := (rows ! y)[x := v]])\<rparr>)
          else Inl OutOfBounds)"

text \<open>
  The loop nest that every operation of \<open>Image\<close> runs over a result it owns:
  \<open>for (y < h) for (x < w) result.m_data[y][x] = e\<close>, where \<open>e\<close> reads other images
  at \<open>(y, x)\<close>.
\<close>

definition assign_pixels ::
  "nat \<Rightarrow> nat \<Rightarrow> (nat \<Rightarrow> nat \<Rightarrow> error + byte) \<Rightarrow> Image \<Rightarrow> error + Image" where
  "assign_pixels h w e result =
     for_loop [0..<h] (\<lambda>y. for_loop [0..<w]
       (\<lambda>x r. bind_err (e y x) (\<lambda>v. data_write r y x v))) result"

text \<open>
  \<open>copyFrom\<close>: takes the other image's dimensions and flag, allocates, and copies every
  pixel.
\<close>

definition copyFrom :: "garbage \<Rightarrow> Image \<Rightarrow> Image \<Rightarrow> error + Image" where
  "copyFrom g this other =
     assign_pixels (unat (m_height other)) (unat (m_width other))
       (\<lambda>i j. data_read other i j)
       (allocateMemory g (this\<lparr>m_width := m_width other, m_height := m_height other,
                               m_isGrayscale := m_isGrayscale other\<rparr>))"

text \<open>\<open>operator=\<close> from an image that is another object than \<open>this\<close>.\<close>

definition Image_assign :: "garbage \<Rightarrow> Image \<Rightarrow> Image \<Rightarrow> error + Image" where
  "Image_assign g this other = bind_err (deallocateMemory this) (\<lambda>t. copyFrom g t other)"

text \<open>
  The saturating expressions. The operands are promoted to \<open>int\<close>, \<open>std::min\<close> and
  \<open>std::max\<close> work on \<open>int\<close>, and the store into the pixel converts to
  \<open>unsigned char\<close>.
\<close>

definition sat_add :: "byte \<Rightarrow> byte \<Rightarrow> byte" where
  "sat_add a b = word_of_int (min 255 (uint a + uint b))"

definition sat_sub :: "byte \<Rightarrow> byte \<Rightarrow> byte" where
  "sat_sub a b = word_of_int (max 0 (uint a - uint b))"

text \<open>\<open>Image::operator+(const Image&)\<close>\<close>

definition Image_plus :: "garbage \<Rightarrow> Image \<Rightarrow> Image \<Rightarrow> error + Image" where
  "Image_plus g this i =
     (if m_width this \<noteq> m_width i \<or> m_height this \<noteq> m_height i then Inr Image_default
      else assign_pixels (unat (m_height this)) (unat (m_width this))
             (\<lambda>y x. bind_err (data_read this y x) (\<lambda>p.
                     bind_err (data_read i y x) (\<lambda>q. Inr (sat_add p q))))
             (Image_ctor g (m_width this) (m_height this)))"

text \<open>\<open>Image::operator-(const Image&)\<close>\<close>

definition Image_minus :: "garbage \<Rightarrow> Image \<Rightarrow> Image \<Rightarrow> error + Image" where
  "Image_minus g this i =
     (if m_width this \<noteq> m_width i \<or> m_height this \<noteq> m_height i then Inr Image_default
      else assign_pixels (unat (m_height this)) (unat (m_width this))
             (\<lambda>y x. bind_err (data_read this y x) (\<lambda>p.
                     bind_err (data_read i y x) (\<lambda>q. Inr (sat_sub p q))))
             (Image_ctor g (m_width this) (m_height this)))"

text \<open>\<open>Image::operator+(unsigned char)\<close>\<close>

definition Image_plus_value :: "garbage \<Rightarrow> Image \<Rightarrow> byte \<Rightarrow> error + Image" where
  "Image_plus_value g this v =
     assign_pixels (unat (m_height this)) (unat (m_width this))
       (\<lambda>y x. bind_err (data_read this y x) (\<lambda>p. Inr (sat_add p v)))
       (Image_ctor g (m_width this) (m_height this))"

text \<open>\<open>Image::operator-(unsigned char)\<close>\<close>

definition Image_minus_value :: "garbage \<Rightarrow> Image \<Rightarrow> byte \<Rightarrow> error + Image" where
  "Image_minus_value g this v =
     assign_pixels (unat (m_height this)) (unat (m_width this))
       (\<lambda>y x. bind_err (data_read this y x) (\<lambda>p. Inr (sat_sub p v)))
       (Image_ctor g (m_width this) (m_height this))"

text \<open>\<open>Image::isEmpty\<close>\<close>

definition isEmpty :: "Image \<Rightarrow> bool" where
  "isEmpty img = (m_data img = None \<or> m_width img = 0 \<or> m_height img = 0)"

text \<open>The image with the given dimensions whose pixel at \<open>(x, y)\<close> is \<open>f y x\<close>.\<close>

definition image_of :: "uint \<Rightarrow> uint \<Rightarrow> (nat \<Rightarrow> nat \<Rightarrow> byte) \<Rightarrow> Image" where
  "image_of w h f =
     \<lparr>m_data = Some (map (\<lambda>i. map (\<lambda>j. f i j) [0..<unat w]) [0..<unat h]),
      m_width = w, m_height = h, m_isGrayscale = True\<rparr>"

text \<open>
  \<open>Image::at(unsigned int x, unsigned int y)\<close>, which returns a reference to
  \<open>m_data[y][x]\<close>, as the target of an assignment and as a read.
\<close>

definition Image_at_write :: "Image \<Rightarrow> uint \<Rightarrow> uint \<Rightarrow> byte \<Rightarrow> error + Image" where
  "Image_at_write img x y v = data_write img (unat y) (unat x) v"

definition Image_at :: "Image \<Rightarrow> uint \<Rightarrow> uint \<Rightarrow> error + byte" where
  "Image_at img x y = data_read img (unat y) (unat x)"

text \<open>
  \<open>Image::getROI(Image&, unsigned int, unsigned int, unsigned int, unsigned int)\<close>,
  for a destination that is another object than \<open>this\<close>. The sums are sums of
  \<open>unsigned int\<close>. The result is the returned flag and the destination.
\<close>

definition getROI ::
  "garbage \<Rightarrow> Image \<Rightarrow> Image \<Rightarrow> uint \<Rightarrow> uint \<Rightarrow> uint \<Rightarrow> uint \<Rightarrow> error + (bool \<times> Image)" where
  "getROI g this roiImg x y width height =
     (if x + width > m_width this \<or> y + height > m_height this then Inr (False, roiImg)
      else bind_err (Image_assign g roiImg (Image_ctor g width height)) (\<lambda>r.
           bind_err (assign_pixels (unat height) (unat width)
                       (\<lambda>i j. data_read this (unat (y + word_of_nat i))
                                              (unat (x + word_of_nat j))) r) (\<lambda>r'.
           Inr (True, r'))))"

section \<open>Files\<close>

text \<open>
  A file is the list of its bytes. The output operators of \<open>save\<close> append to it. The
  input stream of \<open>load\<close> is the bytes not yet read and the flag \<open>good\<close>, which is
  cleared when an extraction fails or meets the end of the file; an operation on a
  stream that is not good does nothing. A number is extracted as optional white space,
  an optional sign and decimal digits.
\<close>

record istream =
  buf :: "byte list"
  good :: bool

definition isspace :: "byte \<Rightarrow> bool" where
  "isspace c = (c = 32 \<or> (9 \<le> c \<and> c \<le> 13))"

definition isdigit :: "byte \<Rightarrow> bool" where
  "isdigit c = (48 \<le> c \<and> c \<le> 57)"

text \<open>\<open>operator<<\<close> for \<open>unsigned int\<close>: the decimal digits, most significant first.\<close>

function decimal :: "nat \<Rightarrow> byte list" where
  "decimal n = (if n < 10 then [word_of_nat (48 + n)]
                else decimal (n div 10) @ [word_of_nat (48 + n mod 10)])"
  by pat_completeness auto
termination
  by (relation "measure (\<lambda>n. n)") auto

declare decimal.simps [simp del]

text \<open>The number that a string of digits denotes after the digits read so far.\<close>

definition digits_value :: "nat \<Rightarrow> byte list \<Rightarrow> nat" where
  "digits_value acc ds = foldl (\<lambda>a d. 10 * a + (unat d - 48)) acc ds"

text \<open>The start of every formatted extraction: nothing on a stream that is not good,
  otherwise white space is skipped, and the end of the file clears \<open>good\<close>.\<close>

definition skip_space :: "istream \<Rightarrow> istream" where
  "skip_space s =
     (if \<not> good s then s
      else let rest = dropWhile isspace (buf s)
           in \<lparr>buf = rest, good = (rest \<noteq> [])\<rparr>)"

text \<open>\<open>file >> magic\<close> for a \<open>std::string\<close> that is empty before.\<close>

definition extract_string :: "istream \<Rightarrow> byte list \<times> istream" where
  "extract_string s =
     (let s' = skip_space s
      in if \<not> good s' then ([], s')
         else let rest = dropWhile (\<lambda>c. \<not> isspace c) (buf s')
              in (takeWhile (\<lambda>c. \<not> isspace c) (buf s'), \<lparr>buf = rest, good = (rest \<noteq> [])\<rparr>))"

text \<open>What follows an optional sign \<open>+\<close> or \<open>-\<close>.\<close>

definition after_sign :: "byte list \<Rightarrow> byte list" where
  "after_sign cs =
     (case cs of c # cs' \<Rightarrow> if c = 43 \<or> c = 45 then cs' else c # cs' | [] \<Rightarrow> [])"

text \<open>
  \<open>file >> m_width\<close>: the variable keeps its value when the stream is not good or
  ends in white space, becomes 0 when no digit is found, and becomes the largest
  \<open>unsigned int\<close> when the digits denote more than that; after a minus sign it is the
  negation, as an \<open>unsigned int\<close>, of what the digits denote.
\<close>

definition extract_unsigned :: "istream \<Rightarrow> uint \<Rightarrow> uint \<times> istream" where
  "extract_unsigned s old =
     (if \<not> good s then (old, s)
      else let s' = skip_space s;
               ds = takeWhile isdigit (after_sign (buf s'));
               rest = dropWhile isdigit (after_sign (buf s'))
           in if \<not> good s' then (old, s')
              else if ds = [] then (0, \<lparr>buf = rest, good = False\<rparr>)
              else if digits_value 0 ds < 2 ^ 32
              then (if hd (buf s') = 45 then - word_of_nat (digits_value 0 ds)
                    else word_of_nat (digits_value 0 ds),
                    \<lparr>buf = rest, good = (rest \<noteq> [])\<rparr>)
              else (- 1, \<lparr>buf = rest, good = False\<rparr>))"

text \<open>\<open>file >> maxVal\<close>, whose value \<open>load\<close> never uses: what it does to the stream.\<close>

definition extract_int :: "istream \<Rightarrow> istream" where
  "extract_int s =
     (if \<not> good s then s
      else let s' = skip_space s;
               ds = takeWhile isdigit (after_sign (buf s'));
               rest = dropWhile isdigit (after_sign (buf s'))
           in if \<not> good s' then s'
              else if ds = [] then \<lparr>buf = rest, good = False\<rparr>
              else \<lparr>buf = rest,
                    good = (rest \<noteq> [] \<and> digits_value 0 ds
                              < (if buf s' \<noteq> [] \<and> hd (buf s') = 45 then 2 ^ 31 + 1 else 2 ^ 31))\<rparr>)"

text \<open>\<open>file.get()\<close>\<close>

definition stream_get :: "istream \<Rightarrow> istream" where
  "stream_get s =
     (if good s \<and> buf s \<noteq> [] then s\<lparr>buf := tl (buf s)\<rparr> else s\<lparr>good := False\<rparr>)"

text \<open>
  \<open>file.read(&gray, 1)\<close> into the local \<open>gray\<close>, which is not initialised: it holds
  the byte read, or whatever the memory held when nothing could be read.
\<close>

definition stream_read :: "byte \<Rightarrow> istream \<Rightarrow> byte \<times> istream" where
  "stream_read indeterminate s =
     (if good s \<and> buf s \<noteq> [] then (hd (buf s), s\<lparr>buf := tl (buf s)\<rparr>)
      else (indeterminate, s\<lparr>good := False\<rparr>))"

text \<open>The text \<open>P5\<close> and the three pieces of the header that \<open>save\<close> writes around the
  dimensions: \<open>"P5\n"\<close>, \<open>" "\<close> and \<open>"\n255\n"\<close>.\<close>

definition P5 :: "byte list" where
  "P5 = [80, 53]"

definition header :: "uint \<Rightarrow> uint \<Rightarrow> byte list" where
  "header w h = [80, 53, 10] @ decimal (unat w) @ [32] @ decimal (unat h) @ [10, 50, 53, 53, 10]"

text \<open>
  \<open>Image::save\<close>. The first argument tells whether the output file could be opened; the
  result is the returned flag and the bytes written.
\<close>

definition save :: "bool \<Rightarrow> Image \<Rightarrow> error + (bool \<times> byte list)" where
  "save is_open this =
     (if \<not> is_open then Inr (False, [])
      else bind_err
             (for_loop [0..<unat (m_height this)] (\<lambda>i.
                for_loop [0..<unat (m_width this)] (\<lambda>j file.
                  bind_err (data_read this i j) (\<lambda>b. Inr (file @ [b]))))
                (header (m_width this) (m_height this)))
             (\<lambda>file. Inr (True, file)))"

text \<open>
  \<open>Image::load\<close>. The file is \<open>None\<close> when it cannot be opened. The dimensions are
  overwritten before \<open>deallocateMemory\<close> runs, which therefore deletes as many rows as
  the new height says.
\<close>

definition load :: "garbage \<Rightarrow> Image \<Rightarrow> byte list option \<Rightarrow> error + (bool \<times> Image)" where
  "load g this file =
     (case file of
        None \<Rightarrow> Inr (False, this)
      | Some bytes \<Rightarrow>
          (case extract_string \<lparr>buf = bytes, good = True\<rparr> of (magic, s1) \<Rightarrow>
           if magic \<noteq> P5 then Inr (False, this)
           else (case extract_unsigned s1 (m_width this) of (w, s2) \<Rightarrow>
                (case extract_unsigned s2 (m_height this) of (h, s3) \<Rightarrow>
                 bind_err (deallocateMemory
                             (this\<lparr>m_isGrayscale := True, m_width := w, m_height := h\<rparr>))
                   (\<lambda>this'.
                 bind_err
                   (for_loop [0..<unat h] (\<lambda>i. for_loop [0..<unat w] (\<lambda>j (img, s).
                      case stream_read (g i j) s of (gray, s') \<Rightarrow>
                        bind_err (data_write img i j gray) (\<lambda>img'. Inr (img', s'))))
                      (allocateMemory g this', stream_get (extract_int s3)))
                   (\<lambda>(img, s). Inr (True, img)))))))"

section \<open>Drawing\<close>

text \<open>
  The value of an \<open>int\<close> expression: the exact result when it is an \<open>int\<close>, and
  undefined behaviour when it is not.
\<close>

definition int_ok :: "int \<Rightarrow> error + int" where
  "int_ok i = (if - (2 ^ 31) \<le> i \<and> i < 2 ^ 31 then Inr i else Inl SignedOverflow)"

subsection \<open>\<open>drawLine\<close>\<close>

text \<open>
  The first statement of the loop: the pixel is set when \<open>(x1, y1)\<close> passes the bounds
  check. The comparison with the unsigned width converts \<open>x1\<close>, which is not negative
  there, and so does the call of \<open>at\<close>.
\<close>

definition drawLine_plot :: "Image \<Rightarrow> int \<Rightarrow> int \<Rightarrow> byte \<Rightarrow> error + Image" where
  "drawLine_plot img x1 y1 v =
     (if 0 \<le> x1 \<and> x1 < uint (m_width img) \<and> 0 \<le> y1 \<and> y1 < uint (m_height img)
      then Image_at_write img (word_of_int x1) (word_of_int y1) v
      else Inr img)"

text \<open>
  The statements after the \<open>break\<close>: from \<open>(x1, y1, err)\<close> to their values at the end
  of the iteration.
\<close>

definition drawLine_step ::
  "int \<Rightarrow> int \<Rightarrow> int \<Rightarrow> int \<Rightarrow> int \<Rightarrow> int \<Rightarrow> int \<Rightarrow> error + (int \<times> int \<times> int)" where
  "drawLine_step dx dy sx sy x1 y1 err =
     bind_err (int_ok (2 * err)) (\<lambda>e2.
     bind_err (if e2 > - dy
               then bind_err (int_ok (err - dy)) (\<lambda>err'.
                    bind_err (int_ok (x1 + sx)) (\<lambda>x1'. Inr (x1', err')))
               else Inr (x1, err)) (\<lambda>(x1', err').
     if e2 < dx
     then bind_err (int_ok (err' + dx)) (\<lambda>err''.
          bind_err (int_ok (y1 + sy)) (\<lambda>y1'. Inr (x1', y1', err'')))
     else Inr (x1', y1, err')))"

text \<open>
  \<open>while (true)\<close>: the loop returns only through the \<open>break\<close>, or not at all, which
  is the value \<open>None\<close>.
\<close>

partial_function (option) drawLine_loop ::
  "int \<Rightarrow> int \<Rightarrow> int \<Rightarrow> int \<Rightarrow> int \<Rightarrow> int \<Rightarrow> byte \<Rightarrow> Image \<Rightarrow> int \<Rightarrow> int \<Rightarrow> int
   \<Rightarrow> (error + Image) option" where
  "drawLine_loop x2 y2 dx dy sx sy v img x1 y1 err =
     (case drawLine_plot img x1 y1 v of
        Inl e \<Rightarrow> Some (Inl e)
      | Inr img' \<Rightarrow>
          if x1 = x2 \<and> y1 = y2 then Some (Inr img')
          else (case drawLine_step dx dy sx sy x1 y1 err of
                  Inl e \<Rightarrow> Some (Inl e)
                | Inr (x1', y1', err') \<Rightarrow>
                    drawLine_loop x2 y2 dx dy sx sy v img' x1' y1' err'))"

text \<open>The initialisation of \<open>drawLine\<close>: \<open>dx\<close>, \<open>dy\<close>, \<open>sx\<close>, \<open>sy\<close> and \<open>err\<close>.\<close>

definition drawLine_init ::
  "int \<Rightarrow> int \<Rightarrow> int \<Rightarrow> int \<Rightarrow> error + (int \<times> int \<times> int \<times> int \<times> int)" where
  "drawLine_init x1 y1 x2 y2 =
     bind_err (int_ok (x2 - x1)) (\<lambda>a.
     bind_err (int_ok \<bar>a\<bar>) (\<lambda>dx.
     bind_err (int_ok (y2 - y1)) (\<lambda>b.
     bind_err (int_ok \<bar>b\<bar>) (\<lambda>dy.
     bind_err (int_ok (dx - dy)) (\<lambda>err.
     Inr (dx, dy, if x1 < x2 then 1 else - 1, if y1 < y2 then 1 else - 1, err))))))"

definition drawLine :: "Image \<Rightarrow> Point \<Rightarrow> Point \<Rightarrow> byte \<Rightarrow> (error + Image) option" where
  "drawLine img p1 p2 v =
     (let x1 = sint (getX p1); y1 = sint (getY p1);
          x2 = sint (getX p2); y2 = sint (getY p2)
      in case drawLine_init x1 y1 x2 y2 of
           Inl e \<Rightarrow> Some (Inl e)
         | Inr (dx, dy, sx, sy, err) \<Rightarrow> drawLine_loop x2 y2 dx dy sx sy v img x1 y1 err)"

subsection \<open>\<open>drawCircle\<close>\<close>

text \<open>
  One of the eight \<open>if\<close> statements. The arguments \<open>a\<close> and \<open>b\<close> are the exact values
  of its two sums, the one compared with the width and the one compared with the height;
  \<open>&&\<close> evaluates the second only after the first has passed. The call is
  \<open>img.at(b, a)\<close>, as the source writes it: the sum with \<open>center.getY()\<close> first.
\<close>

definition drawCircle_plot :: "Image \<Rightarrow> int \<Rightarrow> int \<Rightarrow> byte \<Rightarrow> error + Image" where
  "drawCircle_plot img a b v =
     bind_err (int_ok a) (\<lambda>a'.
       if 0 \<le> a' \<and> a' < uint (m_width img)
       then bind_err (int_ok b) (\<lambda>b'.
              if 0 \<le> b' \<and> b' < uint (m_height img)
              then Image_at_write img (word_of_int b') (word_of_int a') v
              else Inr img)
       else Inr img)"

text \<open>The eight statements of one iteration, in the order of the source.\<close>

definition drawCircle_octants ::
  "Image \<Rightarrow> int \<Rightarrow> int \<Rightarrow> int \<Rightarrow> int \<Rightarrow> byte \<Rightarrow> error + Image" where
  "drawCircle_octants img cx cy x y v =
     bind_err (drawCircle_plot img (cx + x) (cy + y) v) (\<lambda>i1.
     bind_err (drawCircle_plot i1 (cx + y) (cy + x) v) (\<lambda>i2.
     bind_err (drawCircle_plot i2 (cx - x) (cy + y) v) (\<lambda>i3.
     bind_err (drawCircle_plot i3 (cx - y) (cy + x) v) (\<lambda>i4.
     bind_err (drawCircle_plot i4 (cx + x) (cy - y) v) (\<lambda>i5.
     bind_err (drawCircle_plot i5 (cx + y) (cy - x) v) (\<lambda>i6.
     bind_err (drawCircle_plot i6 (cx - x) (cy - y) v) (\<lambda>i7.
     drawCircle_plot i7 (cx - y) (cy - x) v)))))))"

text \<open>The update of \<open>d\<close>, \<open>y\<close> and \<open>x\<close> that ends an iteration.\<close>

definition drawCircle_next :: "int \<Rightarrow> int \<Rightarrow> int \<Rightarrow> error + (int \<times> int \<times> int)" where
  "drawCircle_next x y d =
     bind_err (if d < 0
               then bind_err (int_ok (4 * x)) (\<lambda>t.
                    bind_err (int_ok (t + 6)) (\<lambda>u.
                    bind_err (int_ok (d + u)) (\<lambda>d'. Inr (y, d'))))
               else bind_err (int_ok (x - y)) (\<lambda>s.
                    bind_err (int_ok (4 * s)) (\<lambda>t.
                    bind_err (int_ok (t + 10)) (\<lambda>u.
                    bind_err (int_ok (d + u)) (\<lambda>d'.
                    bind_err (int_ok (y - 1)) (\<lambda>y'. Inr (y', d'))))))) (\<lambda>(y', d').
     bind_err (int_ok (x + 1)) (\<lambda>x'. Inr (x', y', d')))"

lemma drawCircle_next_decreases:
  assumes "drawCircle_next x y d = Inr (x', y', d')"
  shows "x' = x + 1 \<and> y' \<le> y"
  using assms
  by (auto simp: drawCircle_next_def bind_err_def int_ok_def split: if_splits sum.splits)

function drawCircle_loop ::
  "int \<Rightarrow> int \<Rightarrow> byte \<Rightarrow> Image \<Rightarrow> int \<Rightarrow> int \<Rightarrow> int \<Rightarrow> error + Image" where
  "drawCircle_loop cx cy v img x y d =
     (if x \<le> y
      then (case drawCircle_octants img cx cy x y v of
              Inl e \<Rightarrow> Inl e
            | Inr img' \<Rightarrow>
                (case drawCircle_next x y d of
                   Inl e \<Rightarrow> Inl e
                 | Inr (x', y', d') \<Rightarrow> drawCircle_loop cx cy v img' x' y' d'))
      else Inr img)"
  by pat_completeness auto
termination
proof (relation "measure (\<lambda>(cx, cy, v, img, x, y, d). nat (y - x + 1))")
  show "wf (measure (\<lambda>(cx, cy, v, img, x, y, d). nat (y - x + 1)))"
    by simp
next
  fix cx cy :: int and v :: byte and img :: Image and x y d :: int
    and img' :: Image and t :: "int \<times> int \<times> int" and x' :: int and u :: "int \<times> int"
    and y' d' :: int
  assume "x \<le> y" and "drawCircle_next x y d = Inr t" and "(x', u) = t" and "(y', d') = u"
  then have "x' = x + 1 \<and> y' \<le> y"
    using drawCircle_next_decreases [of x y d x' y' d'] by simp
  with \<open>x \<le> y\<close>
  show "((cx, cy, v, img', x', y', d'), (cx, cy, v, img, x, y, d))
        \<in> measure (\<lambda>(cx, cy, v, img, x, y, d). nat (y - x + 1))"
    by simp
qed

definition drawCircle :: "Image \<Rightarrow> Point \<Rightarrow> cint \<Rightarrow> byte \<Rightarrow> error + Image" where
  "drawCircle img center radius v =
     bind_err (int_ok (2 * sint radius)) (\<lambda>t.
     bind_err (int_ok (3 - t)) (\<lambda>d.
     drawCircle_loop (sint (getX center)) (sint (getY center)) v img 0 (sint radius) d))"

section \<open>Filters\<close>

text \<open>
  \<open>process(const Image& src, Image& dst)\<close> works on two references, which may or
  may not name the same object. The objects live in a store, a map from addresses to
  images, and \<open>process\<close> takes the addresses of \<open>src\<close> and \<open>dst\<close>.
\<close>

type_synonym store = "nat \<rightharpoonup> Image"

definition deref :: "store \<Rightarrow> nat \<Rightarrow> error + Image" where
  "deref \<sigma> a = (case \<sigma> a of None \<Rightarrow> Inl InvalidReference | Some img \<Rightarrow> Inr img)"

text \<open>
  A finite \<open>double\<close> is idealised as the \<open>real\<close> it stands for, and the sums and
  products of \<open>double\<close> are taken without rounding. A \<open>double\<close> too large to be
  finite is then a \<open>real\<close> far outside the range of \<open>int\<close>, which is all that the
  code does with it: \<open>static_cast<int>\<close> truncates towards zero, and is undefined when
  the truncation is not an \<open>int\<close>.
\<close>

definition to_int :: "real \<Rightarrow> error + int" where
  "to_int r =
     (let k = (if 0 \<le> r then \<lfloor>r\<rfloor> else \<lceil>r\<rceil>)
      in if - (2 ^ 31) \<le> k \<and> k < 2 ^ 31 then Inr k else Inl CastOutOfRange)"

text \<open>
  \<open>pow\<close> of the C library on a base that is not negative. \<open>None\<close> is the positive
  infinity that \<open>pow\<close> returns for the base 0 with a negative exponent.
\<close>

definition pow :: "real \<Rightarrow> real \<Rightarrow> real option" where
  "pow b e =
     (if e = 0 then Some 1
      else if b = 0 then (if e < 0 then None else Some 0)
      else Some (b powr e))"

text \<open>
  The three filters with the members their constructors set: \<open>alpha\<close> and \<open>beta\<close>;
  \<open>gamma\<close>; \<open>kernel\<close>, \<open>kernelWidth\<close>, \<open>kernelHeight\<close> and \<open>scalingFunction\<close>.
  Below, \<open>kern\<close> stands for \<open>kernel\<close> and \<open>acc\<close> for the local \<open>sum\<close>.
\<close>

datatype ImageProcessing =
    BrightnessContrastAdjustment real cint
  | GammaCorrection real
  | Convolution "real list list" cint cint "real \<Rightarrow> real"

text \<open>The expression \<open>kernel[ky][kx]\<close>.\<close>

definition kernel_read :: "real list list \<Rightarrow> nat \<Rightarrow> nat \<Rightarrow> error + real" where
  "kernel_read kern ky kx =
     (if ky < length kern \<and> kx < length (kern ! ky) then Inr (kern ! ky ! kx)
      else Inl OutOfBounds)"


text \<open>
  The pixel that \<open>BrightnessContrastAdjustment::process\<close> computes from \<open>srcPixel\<close>:
  \<open>std::min(255, std::max(0, static_cast<int>(srcPixel * alpha + beta)))\<close>.
\<close>

definition brightness_contrast_pixel :: "real \<Rightarrow> cint \<Rightarrow> byte \<Rightarrow> error + byte" where
  "brightness_contrast_pixel alpha beta srcPixel =
     bind_err (to_int (real_of_int (uint srcPixel) * alpha + real_of_int (sint beta)))
       (\<lambda>k. Inr (word_of_int (min 255 (max 0 k))))"

text \<open>
  The pixel of \<open>GammaCorrection::process\<close>:
  \<open>std::min(255, static_cast<int>(255 * pow(srcPixel / 255.0, gamma)))\<close>. The product
  with an infinite power is infinite, and its conversion undefined.
\<close>

definition gamma_pixel :: "real \<Rightarrow> byte \<Rightarrow> error + byte" where
  "gamma_pixel gamma srcPixel =
     (case pow (real_of_int (uint srcPixel) / 255) gamma of
        None \<Rightarrow> Inl CastOutOfRange
      | Some p \<Rightarrow> bind_err (to_int (255 * p)) (\<lambda>k. Inr (word_of_int (min 255 k))))"

text \<open>\<open>kernelWidth / 2\<close>: division of \<open>int\<close> truncates towards zero.\<close>

definition half :: "int \<Rightarrow> int" where
  "half k = (if 0 \<le> k then k div 2 else - ((- k) div 2))"

text \<open>
  The body of the two kernel loops of \<open>Convolution::process\<close>. The sums
  \<open>x + kx - kernelRadiusX\<close> and \<open>y + ky - kernelRadiusY\<close> are sums of
  \<open>unsigned int\<close>, since \<open>x\<close> and \<open>y\<close> are, and \<open>srcX\<close> and \<open>srcY\<close> are those words as
  \<open>int\<close>. The comparison with the width and the call of \<open>at\<close> convert them back.
\<close>

definition convolution_tap ::
  "real list list \<Rightarrow> cint \<Rightarrow> cint \<Rightarrow> Image \<Rightarrow> nat \<Rightarrow> nat \<Rightarrow> nat \<Rightarrow> nat \<Rightarrow> real
   \<Rightarrow> error + real" where
  "convolution_tap kern kernelRadiusX kernelRadiusY src x y ky kx acc =
     (let srcX = (word_of_nat x + word_of_nat kx - kernelRadiusX :: cint);
          srcY = (word_of_nat y + word_of_nat ky - kernelRadiusY :: cint)
      in if 0 \<le> sint srcX \<and> srcX < m_width src \<and> 0 \<le> sint srcY \<and> srcY < m_height src
         then bind_err (Image_at src srcX srcY) (\<lambda>srcPixel.
              bind_err (kernel_read kern ky kx) (\<lambda>k.
              Inr (acc + real_of_int (uint srcPixel) * k)))
         else Inr acc)"

text \<open>
  The pixel of \<open>Convolution::process\<close> at \<open>(x, y)\<close>: the kernel loops from
  \<open>sum = 0.0\<close>, then
  \<open>std::min(255, std::max(0, static_cast<int>(scalingFunction(sum))))\<close>.
\<close>

definition convolution_pixel ::
  "real list list \<Rightarrow> cint \<Rightarrow> cint \<Rightarrow> (real \<Rightarrow> real) \<Rightarrow> Image \<Rightarrow> nat \<Rightarrow> nat \<Rightarrow> error + byte" where
  "convolution_pixel kern kernelWidth kernelHeight scalingFunction src x y =
     (let kernelRadiusX = (word_of_int (half (sint kernelWidth)) :: cint);
          kernelRadiusY = (word_of_int (half (sint kernelHeight)) :: cint)
      in bind_err
           (for_loop [0..<nat (sint kernelHeight)] (\<lambda>ky.
              for_loop [0..<nat (sint kernelWidth)] (\<lambda>kx.
                convolution_tap kern kernelRadiusX kernelRadiusY src x y ky kx)) 0)
           (\<lambda>acc. bind_err (to_int (scalingFunction acc))
              (\<lambda>k. Inr (word_of_int (min 255 (max 0 k))))))"

text \<open>What a filter stores at \<open>(x, y)\<close> of the destination, from the source image.\<close>

fun filter_pixel :: "ImageProcessing \<Rightarrow> Image \<Rightarrow> nat \<Rightarrow> nat \<Rightarrow> error + byte" where
  "filter_pixel (BrightnessContrastAdjustment alpha beta) src x y =
     bind_err (Image_at src (word_of_nat x) (word_of_nat y)) (\<lambda>srcPixel.
       brightness_contrast_pixel alpha beta srcPixel)"
| "filter_pixel (GammaCorrection gamma) src x y =
     bind_err (Image_at src (word_of_nat x) (word_of_nat y)) (\<lambda>srcPixel.
       gamma_pixel gamma srcPixel)"
| "filter_pixel (Convolution kern kernelWidth kernelHeight scalingFunction) src x y =
     convolution_pixel kern kernelWidth kernelHeight scalingFunction src x y"

text \<open>
  \<open>process\<close>, the same for the three classes but for the pixel expression:
  \<open>dst = Image(src.width(), src.height())\<close>, then for every \<open>y < src.height()\<close> and
  \<open>x < src.width()\<close> the pixel expression is evaluated on \<open>src\<close> and assigned to
  \<open>dst.at(x, y)\<close>. Every access goes through the store, so that a write to \<open>dst\<close> is
  seen by a later read of \<open>src\<close> when both are one object.
\<close>

definition process :: "ImageProcessing \<Rightarrow> garbage \<Rightarrow> nat \<Rightarrow> nat \<Rightarrow> store \<Rightarrow> error + store" where
  "process f g src dst \<sigma> =
     bind_err (deref \<sigma> src) (\<lambda>s.
     bind_err (deref \<sigma> dst) (\<lambda>d.
     bind_err (Image_assign g d (Image_ctor g (m_width s) (m_height s))) (\<lambda>d'.
     bind_err (deref (\<sigma>(dst \<mapsto> d')) src) (\<lambda>s'.
       for_loop [0..<unat (m_height s')] (\<lambda>y.
         for_loop [0..<unat (m_width s')] (\<lambda>x \<tau>.
           bind_err (deref \<tau> src) (\<lambda>si.
           bind_err (filter_pixel f si x y) (\<lambda>v.
           bind_err (deref \<tau> dst) (\<lambda>di.
           bind_err (Image_at_write di (word_of_nat x) (word_of_nat y) v) (\<lambda>di'.
           Inr (\<tau>(dst \<mapsto> di'))))))))
         (\<sigma>(dst \<mapsto> d'))))))"

text \<open>The 3 by 3 identity kernel with the identity as scaling function.\<close>

definition identity_convolution :: ImageProcessing where
  "identity_convolution = Convolution [[0, 0, 0], [0, 1, 0], [0, 0, 0]] 3 3 (\<lambda>v. v)"

text \<open>The pixel at \<open>(x, y)\<close> of the object at \<open>a\<close> in the store that an operation returns.\<close>

definition result_pixel :: "error + store \<Rightarrow> nat \<Rightarrow> nat \<Rightarrow> nat \<Rightarrow> error + byte" where
  "result_pixel r a x y = bind_err r (\<lambda>\<sigma>. bind_err (deref \<sigma> a) (\<lambda>img. data_read img y x))"

subsection \<open>The invariant of the line loop\<close>

text \<open>
  At the head of the loop, with \<open>rx\<close> and \<open>ry\<close> the distances that remain to
  \<open>x2\<close> and \<open>y2\<close> in the direction of the steps: neither exceeds its initial value
  \<open>dx\<close> or \<open>dy\<close>, the error term is determined by them, and twice the error term
  lies between \<open>-3 * dy\<close> and \<open>3 * dx\<close>.
\<close>

definition drawLine_inv ::
  "int \<Rightarrow> int \<Rightarrow> int \<Rightarrow> int \<Rightarrow> int \<Rightarrow> int \<Rightarrow> int \<Rightarrow> int \<Rightarrow> int \<Rightarrow> bool" where
  "drawLine_inv x2 y2 dx dy sx sy x1 y1 err =
     (let rx = sx * (x2 - x1); ry = sy * (y2 - y1)
      in 0 \<le> rx \<and> rx \<le> dx \<and> 0 \<le> ry \<and> ry \<le> dy
         \<and> (sx = 1 \<or> sx = - 1) \<and> (sy = 1 \<or> sy = - 1)
         \<and> err = dx - dy + rx * dy - ry * dx
         \<and> - (3 * dy) \<le> 2 * err \<and> 2 * err \<le> 3 * dx
         \<and> 3 * dx < 2 ^ 31 \<and> 3 * dy < 2 ^ 31
         \<and> - (2 ^ 31) \<le> x1 \<and> x1 < 2 ^ 31 \<and> - (2 ^ 31) \<le> x2 \<and> x2 < 2 ^ 31
         \<and> - (2 ^ 31) \<le> y1 \<and> y1 < 2 ^ 31 \<and> - (2 ^ 31) \<le> y2 \<and> y2 < 2 ^ 31)"

section \<open>Concrete inputs\<close>

text \<open>
  Memory that happens to hold zeros, a store of two objects at the addresses 0 and 1,
  and an image of one row that is \<open>2^31 + 1\<close> pixels wide, all of them 255.
\<close>

definition zero_garbage :: garbage where
  "zero_garbage i j = 0"

definition two_objects :: "Image \<Rightarrow> Image \<Rightarrow> store" where
  "two_objects a b = [0 \<mapsto> a, 1 \<mapsto> b]"

definition white_pixels :: "nat \<Rightarrow> nat \<Rightarrow> byte" where
  "white_pixels i j = 255"

definition wide_image :: Image where
  "wide_image = image_of 2147483649 1 white_pixels"

section \<open>Loops\<close>

lemma bind_err_Inr [simp]: "bind_err (Inr v) f = f v"
  by (simp add: bind_err_def)

lemma bind_err_Inl [simp]: "bind_err (Inl e) f = Inl e"
  by (simp add: bind_err_def)

lemma for_loop_append:
  "for_loop (is @ js) body s = bind_err (for_loop is body s) (for_loop js body)"
  by (induction "is" arbitrary: s) (auto split: sum.splits)

lemma for_loop_single: "for_loop [i] body = body i"
  by (rule ext) (simp split: sum.splits)

lemma for_loop_Suc:
  "for_loop [0..<Suc n] body s = bind_err (for_loop [0..<n] body s) (body n)"
  by (simp add: for_loop_append for_loop_single)


lemma map_upt_update:
  assumes "n < length xs"
  shows "(map f [0..<n] @ drop n xs)[n := f n] = map f [0..<Suc n] @ drop (Suc n) xs"
proof -
  have "drop n xs = xs ! n # drop (Suc n) xs"
    using assms by (simp add: Cons_nth_drop_Suc)
  then show ?thesis
    by (simp add: list_update_append)
qed

lemma data_write_row:
  assumes "m_data r = Some rows" "y < length rows" "n < length (rows ! y)"
  shows "data_write r y n v = Inr (r\<lparr>m_data := Some (rows[y := (rows ! y)[n := v]])\<rparr>)"
  using assms by (simp add: data_write_def)

lemma assign_row:
  assumes "m_data r = Some rows" "y < length rows" "n \<le> length (rows ! y)"
    and "\<And>j. j < n \<Longrightarrow> e j = Inr (f j)"
  shows "for_loop [0..<n] (\<lambda>j t. bind_err (e j) (\<lambda>v. data_write t y j v)) r
         = Inr (r\<lparr>m_data := Some (rows[y := map f [0..<n] @ drop n (rows ! y)])\<rparr>)"
  using assms(3,4)
proof (induction n)
  case 0
  show ?case using assms(1,2) by simp
next
  case (Suc n)
  have "for_loop [0..<n] (\<lambda>j t. bind_err (e j) (\<lambda>v. data_write t y j v)) r
         = Inr (r\<lparr>m_data := Some (rows[y := map f [0..<n] @ drop n (rows ! y)])\<rparr>)"
    using Suc by simp
  moreover have "e n = Inr (f n)"
    using Suc.prems by simp
  moreover have "n < length (rows ! y)"
    using Suc.prems by simp
  ultimately show ?case
    using assms(2) map_upt_update [of n "rows ! y" f]
    by (simp add: for_loop_Suc data_write_def del: upt_Suc)
qed

lemma assign_pixels_rows:
  assumes "m_data r = Some rows" "length rows = h" "\<forall>row \<in> set rows. length row = w"
    and "\<And>i j. i < h \<Longrightarrow> j < w \<Longrightarrow> e i j = Inr (f i j)"
  shows "assign_pixels h w e r
         = Inr (r\<lparr>m_data := Some (map (\<lambda>i. map (f i) [0..<w]) [0..<h])\<rparr>)"
proof -
  have "m \<le> h \<Longrightarrow>
        for_loop [0..<m] (\<lambda>i. for_loop [0..<w]
          (\<lambda>j t. bind_err (e i j) (\<lambda>v. data_write t i j v))) r
        = Inr (r\<lparr>m_data := Some (map (\<lambda>i. map (f i) [0..<w]) [0..<m] @ drop m rows)\<rparr>)"
    for m
  proof (induction m)
    case 0
    show ?case using assms(1) by simp
  next
    case (Suc m)
    let ?rows = "map (\<lambda>i. map (f i) [0..<w]) [0..<m] @ drop m rows"
    let ?r = "r\<lparr>m_data := Some ?rows\<rparr>"
    have len: "m < length ?rows" "?rows ! m = rows ! m" "length (rows ! m) = w"
      using Suc.prems assms(2,3) by (auto simp: nth_append)
    have row: "for_loop [0..<w] (\<lambda>j t. bind_err (e m j) (\<lambda>v. data_write t m j v)) ?r
         = Inr (?r\<lparr>m_data := Some (?rows[m := map (f m) [0..<w] @ drop w (?rows ! m)])\<rparr>)"
      using len Suc.prems assms(4)
      by (intro assign_row) auto
    have "?rows[m := map (f m) [0..<w] @ drop w (?rows ! m)]
          = map (\<lambda>i. map (f i) [0..<w]) [0..<Suc m] @ drop (Suc m) rows"
      using map_upt_update [of m rows "\<lambda>i. map (f i) [0..<w]"] Suc.prems assms(2) len
      by (simp del: upt_Suc)
    with row Suc show ?case
      by (simp add: for_loop_Suc del: upt_Suc)
  qed
  from this [of h] assms(2) show ?thesis
    by (simp add: assign_pixels_def)
qed

section \<open>Image arithmetic\<close>

lemma data_read_wf:
  assumes "wf_image img" "i < unat (m_height img)" "j < unat (m_width img)"
  shows "data_read img i j = Inr (pixel img j i)"
proof (cases "m_data img")
  case None
  with assms show ?thesis by (simp add: wf_image_def)
next
  case (Some rows)
  with assms have "i < length rows" "length (rows ! i) = unat (m_width img)"
    by (auto simp: wf_image_def)
  with Some assms(3) show ?thesis
    by (simp add: data_read_def pixel_def)
qed

lemma assign_pixels_ctor:
  assumes "\<And>i j. i < unat h \<Longrightarrow> j < unat w \<Longrightarrow> e i j = Inr (f i j)"
  shows "assign_pixels (unat h) (unat w) e (Image_ctor g w h) = Inr (image_of w h f)"
proof -
  have "assign_pixels (unat h) (unat w) e (Image_ctor g w h)
        = Inr ((Image_ctor g w h)\<lparr>m_data := Some (map (\<lambda>i. map (f i) [0..<unat w]) [0..<unat h])\<rparr>)"
    using assms
    by (intro assign_pixels_rows [where rows = "map (\<lambda>i. map (\<lambda>j. g i j) [0..<unat w]) [0..<unat h]"])
       (auto simp: Image_ctor_def allocateMemory_def)
  then show ?thesis
    by (simp add: Image_ctor_def allocateMemory_def image_of_def)
qed

lemma image_of_simps [simp]:
  "m_width (image_of w h f) = w" "m_height (image_of w h f) = h"
  "m_isGrayscale (image_of w h f) = True"
  "wf_image (image_of w h f)"
  by (auto simp: image_of_def wf_image_def)

lemma pixel_image_of [simp]:
  "i < unat h \<Longrightarrow> j < unat w \<Longrightarrow> pixel (image_of w h f) j i = f i j"
  by (simp add: image_of_def pixel_def)

lemma uint_sat_add: "uint (sat_add a b) = min 255 (uint a + uint b)"
proof -
  have "0 \<le> min 255 (uint a + uint b)" "min 255 (uint a + uint b) < 256"
    by auto
  then show ?thesis
    by (simp add: sat_add_def uint_word_of_int)
qed

lemma uint_sat_sub: "uint (sat_sub a b) = max 0 (uint a - uint b)"
proof -
  have a: "uint a < 256" using uint_bounded [of a] by simp
  have b: "0 \<le> uint b" by simp
  have "max 0 (uint a - uint b) < 256"
    using a b by arith
  then show ?thesis
    by (simp add: sat_sub_def uint_word_of_int)
qed

lemma sat_add_commute: "sat_add a b = sat_add b a"
  by (simp add: sat_add_def add.commute)

lemma Image_plus_value_eq:
  assumes "wf_image img"
  shows "Image_plus_value g img v
         = Inr (image_of (m_width img) (m_height img) (\<lambda>i j. sat_add (pixel img j i) v))"
  unfolding Image_plus_value_def
  by (rule assign_pixels_ctor) (simp add: data_read_wf [OF assms])

lemma Image_minus_value_eq:
  assumes "wf_image img"
  shows "Image_minus_value g img v
         = Inr (image_of (m_width img) (m_height img) (\<lambda>i j. sat_sub (pixel img j i) v))"
  unfolding Image_minus_value_def
  by (rule assign_pixels_ctor) (simp add: data_read_wf [OF assms])

lemma Image_plus_eq:
  assumes "wf_image a" "wf_image b" "m_width a = m_width b" "m_height a = m_height b"
  shows "Image_plus g a b
         = Inr (image_of (m_width a) (m_height a) (\<lambda>i j. sat_add (pixel a j i) (pixel b j i)))"
proof -
  have "assign_pixels (unat (m_height a)) (unat (m_width a))
             (\<lambda>y x. bind_err (data_read a y x) (\<lambda>p.
                     bind_err (data_read b y x) (\<lambda>q. Inr (sat_add p q))))
             (Image_ctor g (m_width a) (m_height a))
        = Inr (image_of (m_width a) (m_height a) (\<lambda>i j. sat_add (pixel a j i) (pixel b j i)))"
    by (rule assign_pixels_ctor) (simp add: data_read_wf [OF assms(1)] data_read_wf [OF assms(2)] assms(3,4) [symmetric])
  then show ?thesis using assms(3,4) by (simp add: Image_plus_def)
qed


text \<open>
  Claim C7. For every pixel value \<open>v\<close> and every constant \<open>c\<close>, both bytes: adding
  \<open>c\<close> to an image whose pixels are all \<open>v\<close> returns an image of the same dimensions
  whose pixels are all \<open>min(255, v + c)\<close>, and subtracting \<open>c\<close> returns one whose
  pixels are all \<open>max(0, v - c)\<close>.
\<close>

theorem saturating_constant_arithmetic:
  assumes "wf_image img"
    and "\<forall>i<unat (m_height img). \<forall>j<unat (m_width img). pixel img j i = v"
  shows "\<exists>r s. Image_plus_value g img c = Inr r \<and> Image_minus_value g img c = Inr s
           \<and> wf_image r \<and> wf_image s
           \<and> m_width r = m_width img \<and> m_height r = m_height img
           \<and> m_width s = m_width img \<and> m_height s = m_height img
           \<and> (\<forall>i<unat (m_height img). \<forall>j<unat (m_width img).
                  uint (pixel r j i) = min 255 (uint v + uint c)
                \<and> uint (pixel s j i) = max 0 (uint v - uint c))"
  using assms(2)
  by (simp add: Image_plus_value_eq [OF assms(1)] Image_minus_value_eq [OF assms(1)]
        uint_sat_add uint_sat_sub)

theorem saturating_constant_arithmetic_witness:
  "wf_image \<lparr>m_data = Some [[100]], m_width = 1, m_height = 1, m_isGrayscale = True\<rparr>
   \<and> (\<exists>r s. Image_plus_value (\<lambda>i j. 0)
                \<lparr>m_data = Some [[100]], m_width = 1, m_height = 1, m_isGrayscale = True\<rparr> 200
              = Inr r
            \<and> Image_minus_value (\<lambda>i j. 0)
                \<lparr>m_data = Some [[100]], m_width = 1, m_height = 1, m_isGrayscale = True\<rparr> 200
              = Inr s
            \<and> uint (pixel r 0 0) = 255 \<and> uint (pixel s 0 0) = 0)"
proof -
  let ?img = "\<lparr>m_data = Some [[100]], m_width = 1, m_height = 1, m_isGrayscale = True\<rparr>"
  have wf: "wf_image ?img"
    by (simp add: wf_image_def)
  have const: "\<forall>i<unat (m_height ?img). \<forall>j<unat (m_width ?img). pixel ?img j i = 100"
    by (simp add: pixel_def)
  from saturating_constant_arithmetic [OF wf const, of "\<lambda>i j. 0" 200]
  obtain r s where "Image_plus_value (\<lambda>i j. 0) ?img 200 = Inr r"
    "Image_minus_value (\<lambda>i j. 0) ?img 200 = Inr s"
    "uint (pixel r 0 0) = min 255 (uint (100 :: byte) + uint (200 :: byte))"
    "uint (pixel s 0 0) = max 0 (uint (100 :: byte) - uint (200 :: byte))"
    by auto
  then show ?thesis
    using wf by simp
qed

text \<open>
  Claim C5. For two images whose widths differ or whose heights differ, \<open>a + b\<close> and
  \<open>a - b\<close> both return normally, and what they return is the default-constructed
  image, for which \<open>isEmpty\<close> is true.
\<close>

theorem dimension_mismatch_yields_empty:
  assumes "m_width a \<noteq> m_width b \<or> m_height a \<noteq> m_height b"
  shows "Image_plus g a b = Inr Image_default \<and> Image_minus g a b = Inr Image_default
         \<and> isEmpty Image_default"
  using assms by (auto simp: Image_plus_def Image_minus_def isEmpty_def Image_default_def)

theorem dimension_mismatch_yields_empty_witness:
  "Image_plus (\<lambda>i j. 0)
     \<lparr>m_data = Some [[1, 2]], m_width = 2, m_height = 1, m_isGrayscale = True\<rparr>
     \<lparr>m_data = Some [[3]], m_width = 1, m_height = 1, m_isGrayscale = True\<rparr>
   = Inr Image_default
   \<and> Image_minus (\<lambda>i j. 0)
     \<lparr>m_data = Some [[1, 2]], m_width = 2, m_height = 1, m_isGrayscale = True\<rparr>
     \<lparr>m_data = Some [[3]], m_width = 1, m_height = 1, m_isGrayscale = True\<rparr>
   = Inr Image_default
   \<and> isEmpty Image_default"
  using dimension_mismatch_yields_empty
    [of "\<lparr>m_data = Some [[1, 2]], m_width = 2, m_height = 1, m_isGrayscale = True\<rparr>"
        "\<lparr>m_data = Some [[3]], m_width = 1, m_height = 1, m_isGrayscale = True\<rparr>"
        "\<lambda>i j. 0"]
  by simp

text \<open>
  Claim C10. Image addition is commutative: \<open>a + b\<close> and \<open>b + a\<close> are the same
  image. With equal dimensions it has these dimensions and the pixel
  \<open>min(255, a[p] + b[p])\<close> at every position; otherwise it is the default-constructed
  image.
\<close>

theorem image_addition_commutes:
  assumes "wf_image a" "wf_image b"
  shows "Image_plus g a b = Image_plus g' b a
         \<and> (if m_width a = m_width b \<and> m_height a = m_height b
            then \<exists>r. Image_plus g a b = Inr r \<and> wf_image r
                   \<and> m_width r = m_width a \<and> m_height r = m_height a
                   \<and> (\<forall>i<unat (m_height a). \<forall>j<unat (m_width a).
                        uint (pixel r j i)
                        = min 255 (uint (pixel a j i) + uint (pixel b j i)))
            else Image_plus g a b = Inr Image_default)"
proof (cases "m_width a = m_width b \<and> m_height a = m_height b")
  case True
  then have eq: "m_width a = m_width b" "m_height a = m_height b"
    by simp_all
  have "Image_plus g' b a
        = Inr (image_of (m_width a) (m_height a) (\<lambda>i j. sat_add (pixel a j i) (pixel b j i)))"
    using Image_plus_eq [OF assms(2,1) eq [symmetric], of g']
    by (simp add: eq sat_add_commute)
  then show ?thesis
    using True by (simp add: Image_plus_eq [OF assms eq] uint_sat_add)
next
  case False
  then show ?thesis
    by (auto simp: Image_plus_def)
qed

theorem image_addition_commutes_witness:
  "Image_plus (\<lambda>i j. 0)
     \<lparr>m_data = Some [[200, 7]], m_width = 2, m_height = 1, m_isGrayscale = True\<rparr>
     \<lparr>m_data = Some [[100, 8]], m_width = 2, m_height = 1, m_isGrayscale = True\<rparr>
   = Image_plus (\<lambda>i j. 9)
     \<lparr>m_data = Some [[100, 8]], m_width = 2, m_height = 1, m_isGrayscale = True\<rparr>
     \<lparr>m_data = Some [[200, 7]], m_width = 2, m_height = 1, m_isGrayscale = True\<rparr>"
proof -
  let ?a = "\<lparr>m_data = Some [[200, 7]], m_width = 2, m_height = 1, m_isGrayscale = True\<rparr>"
  let ?b = "\<lparr>m_data = Some [[100, 8]], m_width = 2, m_height = 1, m_isGrayscale = True\<rparr>"
  have "wf_image ?a" "wf_image ?b"
    by (simp_all add: wf_image_def)
  from image_addition_commutes [OF this, of "\<lambda>i j. 0" "\<lambda>i j. 9"] show ?thesis
    by simp
qed

section \<open>Lines\<close>

lemma sint_nonneg_uint:
  assumes "0 \<le> sint (w :: 32 word)"
  shows "uint w = sint w"
proof -
  have "sint w < 2 ^ 32"
    using sint_lt [of w] by simp
  then have "take_bit 32 (sint w) = sint w"
    using assms by (simp add: take_bit_int_eq_self)
  then show ?thesis
    using uint_sint [of w] by simp
qed

lemma drawLine_init_same: "drawLine_init a b a b = Inr (0, 0, - 1, - 1, 0)"
  by (simp add: drawLine_init_def int_ok_def)

lemma data_write_wf:
  assumes "wf_image img" "i < unat (m_height img)" "j < unat (m_width img)"
  shows "\<exists>img'. data_write img i j v = Inr img' \<and> wf_image img'
           \<and> m_width img' = m_width img \<and> m_height img' = m_height img
           \<and> (\<forall>i'<unat (m_height img). \<forall>j'<unat (m_width img).
                 pixel img' j' i' = (if j' = j \<and> i' = i then v else pixel img j' i'))"
proof (cases "m_data img")
  case None
  with assms show ?thesis by (simp add: wf_image_def)
next
  case (Some rows)
  with assms have len: "length rows = unat (m_height img)"
    "\<forall>r \<in> set rows. length r = unat (m_width img)"
    by (auto simp: wf_image_def)
  then have row: "length (rows ! i) = unat (m_width img)"
    using assms(2) by simp
  let ?img = "img\<lparr>m_data := Some (rows[i := (rows ! i)[j := v]])\<rparr>"
  have w: "data_write img i j v = Inr ?img"
    using Some len(1) row assms(2,3) by (simp add: data_write_def)
  have "set (rows[i := (rows ! i)[j := v]]) \<subseteq> insert ((rows ! i)[j := v]) (set rows)"
    by (rule set_update_subset_insert)
  then have wf: "wf_image ?img"
    using len row by (auto simp: wf_image_def)
  have px: "pixel ?img j' i' = (if j' = j \<and> i' = i then v else pixel img j' i')"
    if "i' < unat (m_height img)" "j' < unat (m_width img)" for i' j'
    using that Some len(1) row assms(2,3)
    by (simp add: pixel_def nth_list_update)
  show ?thesis
  proof (intro exI conjI)
    show "data_write img i j v = Inr ?img" by (rule w)
    show "wf_image ?img" by (rule wf)
    show "\<forall>i'<unat (m_height img). \<forall>j'<unat (m_width img).
            pixel ?img j' i' = (if j' = j \<and> i' = i then v else pixel img j' i')"
      using px by blast
  qed simp_all
qed

text \<open>
  Claim C8. For every image and every point \<open>p\<close> inside it,
  \<open>drawLine(img, p, p, value)\<close> returns with the pixel at \<open>p\<close> set to \<open>value\<close>
  and every other pixel, and the dimensions, as they were.
\<close>

theorem drawLine_single_point:
  assumes "wf_image img"
    and "0 \<le> sint (getX p)" "sint (getX p) < uint (m_width img)"
    and "0 \<le> sint (getY p)" "sint (getY p) < uint (m_height img)"
  shows "\<exists>img'. drawLine img p p v = Some (Inr img') \<and> wf_image img'
           \<and> m_width img' = m_width img \<and> m_height img' = m_height img
           \<and> (\<forall>i<unat (m_height img). \<forall>j<unat (m_width img).
                 pixel img' j i
                 = (if j = unat (getX p) \<and> i = unat (getY p) then v else pixel img j i))"
proof -
  have x: "unat (getX p) < unat (m_width img)"
    using assms(2,3) sint_nonneg_uint [of "getX p"] by (intro unat_mono) (simp add: word_less_def)
  have y: "unat (getY p) < unat (m_height img)"
    using assms(4,5) sint_nonneg_uint [of "getY p"] by (intro unat_mono) (simp add: word_less_def)
  have plot: "drawLine_plot img (sint (getX p)) (sint (getY p)) v
        = data_write img (unat (getY p)) (unat (getX p)) v"
    using assms(2-5) by (simp add: drawLine_plot_def Image_at_write_def)
  from data_write_wf [OF assms(1) y x, of v] obtain img' where
    img': "data_write img (unat (getY p)) (unat (getX p)) v = Inr img'"
      "wf_image img'" "m_width img' = m_width img" "m_height img' = m_height img"
      "\<forall>i<unat (m_height img). \<forall>j<unat (m_width img).
         pixel img' j i
         = (if j = unat (getX p) \<and> i = unat (getY p) then v else pixel img j i)"
    by blast
  have "drawLine_loop (sint (getX p)) (sint (getY p)) 0 0 (- 1) (- 1) v img
          (sint (getX p)) (sint (getY p)) 0 = Some (Inr img')"
    by (subst drawLine_loop.simps) (simp add: plot img'(1))
  then have "drawLine img p p v = Some (Inr img')"
    by (simp add: drawLine_def drawLine_init_same)
  with img'(2-5) show ?thesis by blast
qed

theorem drawLine_single_point_witness:
  "wf_image (image_of 5 5 (\<lambda>i j. 0))
   \<and> (\<exists>img'. drawLine (image_of 5 5 (\<lambda>i j. 0)) \<lparr>Point_x = 2, Point_y = 2\<rparr>
                \<lparr>Point_x = 2, Point_y = 2\<rparr> 200 = Some (Inr img')
            \<and> pixel img' 2 2 = 200 \<and> pixel img' 3 2 = 0 \<and> pixel img' 2 1 = 0)"
proof -
  let ?img = "image_of 5 5 (\<lambda>i j. 0)"
  let ?p = "\<lparr>Point_x = 2, Point_y = 2\<rparr>"
  have wf: "wf_image ?img"
    by simp
  have inside: "0 \<le> sint (getX ?p)" "sint (getX ?p) < uint (m_width ?img)"
    "0 \<le> sint (getY ?p)" "sint (getY ?p) < uint (m_height ?img)"
    by (simp_all add: getX_def getY_def)
  from drawLine_single_point [OF wf inside, of 200] obtain img' where
    r: "drawLine ?img ?p ?p 200 = Some (Inr img')"
      "\<forall>i<unat (m_height ?img). \<forall>j<unat (m_width ?img).
         pixel img' j i
         = (if j = unat (getX ?p) \<and> i = unat (getY ?p) then 200 else pixel ?img j i)"
    by blast
  from r(2) have "pixel img' 2 2 = 200" "pixel img' 3 2 = 0" "pixel img' 2 1 = 0"
    by (simp_all add: getX_def getY_def)
  with r(1) wf show ?thesis by blast
qed

lemma no_overshoot_x:
  fixes dx dy ry err :: int
  assumes "0 \<le> dx" "0 \<le> dy" "1 \<le> ry" "err = dx - dy - ry * dx"
  shows "2 * err \<le> - dy"
proof -
  have "1 * dx \<le> ry * dx"
    using assms(1,3) by (intro mult_right_mono) simp_all
  with assms show ?thesis by simp
qed

lemma no_overshoot_y:
  fixes dx dy rx err :: int
  assumes "0 \<le> dx" "0 \<le> dy" "1 \<le> rx" "err = dx - dy + rx * dy"
  shows "dx \<le> 2 * err"
proof -
  have "1 * dy \<le> rx * dy"
    using assms(2,3) by (intro mult_right_mono) simp_all
  with assms show ?thesis by simp
qed

lemma int_ok_Inr: "- (2 ^ 31) \<le> i \<Longrightarrow> i < 2 ^ 31 \<Longrightarrow> int_ok i = Inr i"
  by (simp add: int_ok_def)

text \<open>The step in terms of the remaining distances.\<close>

lemma drawLine_step_inv:
  assumes inv: "drawLine_inv x2 y2 dx dy sx sy x1 y1 err"
    and more: "x1 \<noteq> x2 \<or> y1 \<noteq> y2"
  shows "\<exists>x1' y1' err'. drawLine_step dx dy sx sy x1 y1 err = Inr (x1', y1', err')
           \<and> drawLine_inv x2 y2 dx dy sx sy x1' y1' err'
           \<and> sx * (x2 - x1') + sy * (y2 - y1') < sx * (x2 - x1) + sy * (y2 - y1)"
proof -
  define rx where "rx = sx * (x2 - x1)"
  define ry where "ry = sy * (y2 - y1)"
  from inv have r: "0 \<le> rx" "rx \<le> dx" "0 \<le> ry" "ry \<le> dy"
    and s: "sx = 1 \<or> sx = - 1" "sy = 1 \<or> sy = - 1"
    and err: "err = dx - dy + rx * dy - ry * dx"
    and bnd: "- (3 * dy) \<le> 2 * err" "2 * err \<le> 3 * dx" "3 * dx < 2 ^ 31" "3 * dy < 2 ^ 31"
    and rng: "- (2 ^ 31) \<le> x1" "x1 < 2 ^ 31" "- (2 ^ 31) \<le> x2" "x2 < 2 ^ 31"
      "- (2 ^ 31) \<le> y1" "y1 < 2 ^ 31" "- (2 ^ 31) \<le> y2" "y2 < 2 ^ 31"
    by (simp_all add: drawLine_inv_def Let_def rx_def ry_def)
  have d: "0 \<le> dx" "0 \<le> dy"
    using r by simp_all
  have pos: "0 < rx \<or> 0 < ry"
    using more s r by (auto simp: rx_def ry_def)
  have e2: "int_ok (2 * err) = Inr (2 * err)"
    using bnd d by (intro int_ok_Inr) simp_all
  have xstep: "1 \<le> rx" if "2 * err > - dy"
  proof (rule ccontr)
    assume "\<not> 1 \<le> rx"
    then have "rx = 0" "1 \<le> ry" using r pos by simp_all
    then have "2 * err \<le> - dy"
      using no_overshoot_x [OF d, of ry err] err by simp
    with that show False by simp
  qed
  have ystep: "1 \<le> ry" if "2 * err < dx"
  proof (rule ccontr)
    assume "\<not> 1 \<le> ry"
    then have "ry = 0" "1 \<le> rx" using r pos by simp_all
    then have "dx \<le> 2 * err"
      using no_overshoot_y [OF d, of rx err] err by simp
    with that show False by simp
  qed
  have some: "2 * err > - dy \<or> 2 * err < dx"
    using pos r d by linarith
  have rx': "sx * (x2 - (x1 + sx)) = rx - 1"
    using s(1) by (auto simp: rx_def algebra_simps)
  have ry': "sy * (y2 - (y1 + sy)) = ry - 1"
    using s(2) by (auto simp: ry_def algebra_simps)
  have xrange: "- (2 ^ 31) \<le> x1 + sx \<and> x1 + sx < 2 ^ 31" if "1 \<le> rx"
    using that s(1) rng by (auto simp: rx_def)
  have yrange: "- (2 ^ 31) \<le> y1 + sy \<and> y1 + sy < 2 ^ 31" if "1 \<le> ry"
    using that s(2) rng by (auto simp: ry_def)
  have errx: "err - dy = dx - dy + (rx - 1) * dy - ry * dx"
    using err by (simp add: algebra_simps)
  have erry: "err + dx = dx - dy + rx * dy - (ry - 1) * dx"
    using err by (simp add: algebra_simps)
  have errxy: "err - dy + dx = dx - dy + (rx - 1) * dy - (ry - 1) * dx"
    using err by (simp add: algebra_simps)
  consider (x) "2 * err > - dy" "\<not> 2 * err < dx"
    | (y) "\<not> 2 * err > - dy" "2 * err < dx"
    | (xy) "2 * err > - dy" "2 * err < dx"
    using some by blast
  then show ?thesis
  proof cases
    case x
    have ok: "int_ok (err - dy) = Inr (err - dy)" "int_ok (x1 + sx) = Inr (x1 + sx)"
      using x bnd d xrange [OF xstep [OF x(1)]] by (simp_all add: int_ok_def)
    have st: "drawLine_step dx dy sx sy x1 y1 err = Inr (x1 + sx, y1, err - dy)"
      using x by (simp add: drawLine_step_def e2 ok)
    have "drawLine_inv x2 y2 dx dy sx sy (x1 + sx) y1 (err - dy)"
      unfolding drawLine_inv_def Let_def rx' ry_def [symmetric]
      using r s errx bnd rng x xstep [OF x(1)] xrange [OF xstep [OF x(1)]] d
      by simp
    moreover have "sx * (x2 - (x1 + sx)) + sy * (y2 - y1) < sx * (x2 - x1) + sy * (y2 - y1)"
      unfolding rx' by (simp add: rx_def)
    ultimately show ?thesis using st by blast
  next
    case y
    have ok: "int_ok (err + dx) = Inr (err + dx)" "int_ok (y1 + sy) = Inr (y1 + sy)"
      using y bnd d yrange [OF ystep [OF y(2)]] by (simp_all add: int_ok_def)
    have st: "drawLine_step dx dy sx sy x1 y1 err = Inr (x1, y1 + sy, err + dx)"
      using y by (simp add: drawLine_step_def e2 ok)
    have "drawLine_inv x2 y2 dx dy sx sy x1 (y1 + sy) (err + dx)"
      unfolding drawLine_inv_def Let_def ry' rx_def [symmetric]
      using r s erry bnd rng y ystep [OF y(2)] yrange [OF ystep [OF y(2)]] d
      by simp
    moreover have "sx * (x2 - x1) + sy * (y2 - (y1 + sy)) < sx * (x2 - x1) + sy * (y2 - y1)"
      unfolding ry' by (simp add: ry_def)
    ultimately show ?thesis using st by blast
  next
    case xy
    have ok: "int_ok (err - dy) = Inr (err - dy)" "int_ok (x1 + sx) = Inr (x1 + sx)"
      "int_ok (err - dy + dx) = Inr (err - dy + dx)" "int_ok (y1 + sy) = Inr (y1 + sy)"
      using xy bnd d xrange [OF xstep [OF xy(1)]] yrange [OF ystep [OF xy(2)]]
      by (simp_all add: int_ok_def)
    have st: "drawLine_step dx dy sx sy x1 y1 err = Inr (x1 + sx, y1 + sy, err - dy + dx)"
      using xy by (simp add: drawLine_step_def e2 ok)
    have "drawLine_inv x2 y2 dx dy sx sy (x1 + sx) (y1 + sy) (err - dy + dx)"
      unfolding drawLine_inv_def Let_def rx' ry'
      using r s errxy bnd rng xy xstep [OF xy(1)] ystep [OF xy(2)]
        xrange [OF xstep [OF xy(1)]] yrange [OF ystep [OF xy(2)]] d
      by simp
    moreover have "sx * (x2 - (x1 + sx)) + sy * (y2 - (y1 + sy))
                   < sx * (x2 - x1) + sy * (y2 - y1)"
      unfolding rx' ry' by (simp add: rx_def ry_def)
    ultimately show ?thesis using st by blast
  qed
qed

lemma drawLine_plot_wf:
  assumes "wf_image img"
  shows "\<exists>img'. drawLine_plot img x1 y1 v = Inr img' \<and> wf_image img'
           \<and> m_width img' = m_width img \<and> m_height img' = m_height img"
proof (cases "0 \<le> x1 \<and> x1 < uint (m_width img) \<and> 0 \<le> y1 \<and> y1 < uint (m_height img)")
  case False
  then show ?thesis
    using assms by (auto simp: drawLine_plot_def)
next
  case True
  have "uint (m_width img) < 2 ^ 32" "uint (m_height img) < 2 ^ 32"
    using uint_bounded [of "m_width img"] uint_bounded [of "m_height img"] by simp_all
  with True have "uint (word_of_int x1 :: uint) = x1" "uint (word_of_int y1 :: uint) = y1"
    by (simp_all add: uint_word_of_int)
  with True have "(word_of_int x1 :: uint) < m_width img" "(word_of_int y1 :: uint) < m_height img"
    by (simp_all add: word_less_def)
  then have "unat (word_of_int x1 :: uint) < unat (m_width img)"
    "unat (word_of_int y1 :: uint) < unat (m_height img)"
    by (simp_all add: unat_mono)
  from data_write_wf [OF assms this(2,1), of v] True show ?thesis
    by (auto simp: drawLine_plot_def Image_at_write_def)
qed

lemma drawLine_loop_terminates:
  assumes "wf_image img" "drawLine_inv x2 y2 dx dy sx sy x1 y1 err"
  shows "\<exists>img'. drawLine_loop x2 y2 dx dy sx sy v img x1 y1 err = Some (Inr img')
           \<and> wf_image img' \<and> m_width img' = m_width img \<and> m_height img' = m_height img"
  using assms
proof (induction "nat (sx * (x2 - x1) + sy * (y2 - y1))" arbitrary: img x1 y1 err
       rule: less_induct)
  case less
  obtain img1 where img1: "drawLine_plot img x1 y1 v = Inr img1" "wf_image img1"
    "m_width img1 = m_width img" "m_height img1 = m_height img"
    using drawLine_plot_wf [OF less.prems(1)] by blast
  show ?case
  proof (cases "x1 = x2 \<and> y1 = y2")
    case True
    then have "drawLine_loop x2 y2 dx dy sx sy v img x1 y1 err = Some (Inr img1)"
      by (subst drawLine_loop.simps) (use img1(1) in simp)
    with img1 show ?thesis by simp
  next
    case False
    then have "x1 \<noteq> x2 \<or> y1 \<noteq> y2" by simp
    from drawLine_step_inv [OF less.prems(2) this] obtain x1' y1' err' where
      st: "drawLine_step dx dy sx sy x1 y1 err = Inr (x1', y1', err')"
        "drawLine_inv x2 y2 dx dy sx sy x1' y1' err'"
        "sx * (x2 - x1') + sy * (y2 - y1') < sx * (x2 - x1) + sy * (y2 - y1)"
      by blast
    have "0 \<le> sx * (x2 - x1') + sy * (y2 - y1')"
      using st(2) by (simp add: drawLine_inv_def Let_def)
    with st(3) have "nat (sx * (x2 - x1') + sy * (y2 - y1')) < nat (sx * (x2 - x1) + sy * (y2 - y1))"
      by simp
    from less.hyps [OF this img1(2) st(2)] obtain img' where
      "drawLine_loop x2 y2 dx dy sx sy v img1 x1' y1' err' = Some (Inr img')"
      "wf_image img'" "m_width img' = m_width img1" "m_height img' = m_height img1"
      by blast
    moreover have "drawLine_loop x2 y2 dx dy sx sy v img x1 y1 err
                   = drawLine_loop x2 y2 dx dy sx sy v img1 x1' y1' err'"
      by (subst drawLine_loop.simps)
         (simp only: img1(1) st(1) sum.case if_not_P [OF False] prod.case)
    ultimately show ?thesis using img1 by simp
  qed
qed

lemma drawLine_init_inv:
  assumes "3 * \<bar>x2 - x1\<bar> < 2 ^ 31" "3 * \<bar>y2 - y1\<bar> < 2 ^ 31"
    and "- (2 ^ 31) \<le> x1" "x1 < 2 ^ 31" "- (2 ^ 31) \<le> x2" "x2 < 2 ^ 31"
    and "- (2 ^ 31) \<le> y1" "y1 < 2 ^ 31" "- (2 ^ 31) \<le> y2" "y2 < 2 ^ 31"
  shows "\<exists>dx dy sx sy err. drawLine_init x1 y1 x2 y2 = Inr (dx, dy, sx, sy, err)
           \<and> drawLine_inv x2 y2 dx dy sx sy x1 y1 err"
proof -
  define dx where "dx = \<bar>x2 - x1\<bar>"
  define dy where "dy = \<bar>y2 - y1\<bar>"
  define sx :: int where "sx = (if x1 < x2 then 1 else - 1)"
  define sy :: int where "sy = (if y1 < y2 then 1 else - 1)"
  have d: "0 \<le> dx" "0 \<le> dy" "3 * dx < 2 ^ 31" "3 * dy < 2 ^ 31"
    using assms(1,2) by (simp_all add: dx_def dy_def)
  then have small: "dx < 2 ^ 31" "dy < 2 ^ 31"
    by simp_all
  then have diff: "- (2 ^ 31) \<le> x2 - x1 \<and> x2 - x1 < 2 ^ 31"
    "- (2 ^ 31) \<le> y2 - y1 \<and> y2 - y1 < 2 ^ 31"
    unfolding dx_def dy_def abs_less_iff by simp_all
  have ok: "int_ok (x2 - x1) = Inr (x2 - x1)" "int_ok \<bar>x2 - x1\<bar> = Inr dx"
    "int_ok (y2 - y1) = Inr (y2 - y1)" "int_ok \<bar>y2 - y1\<bar> = Inr dy"
    "int_ok (dx - dy) = Inr (dx - dy)"
    using diff d small unfolding dx_def [symmetric] dy_def [symmetric]
    by (simp_all add: int_ok_def)
  have init: "drawLine_init x1 y1 x2 y2 = Inr (dx, dy, sx, sy, dx - dy)"
    unfolding drawLine_init_def sx_def sy_def by (simp only: ok bind_err_Inr)
  have rx: "sx * (x2 - x1) = dx" and ry: "sy * (y2 - y1) = dy"
    by (simp_all add: sx_def sy_def dx_def dy_def)
  have s: "sx = 1 \<or> sx = - 1" "sy = 1 \<or> sy = - 1"
    by (simp_all add: sx_def sy_def)
  have "drawLine_inv x2 y2 dx dy sx sy x1 y1 (dx - dy)"
    unfolding drawLine_inv_def Let_def rx ry
    using assms(3-) d s by (simp add: mult.commute)
  with init show ?thesis by blast
qed

text \<open>
  Claim C9, amended. For every image and every pair of endpoints whose coordinate
  differences satisfy \<open>3 * |x2 - x1| < 2^31\<close> and \<open>3 * |y2 - y1| < 2^31\<close>,
  \<open>drawLine\<close> returns: the loop reaches \<open>p2\<close> after finitely many iterations, with no
  \<open>int\<close> overflow on the way, and the image keeps its dimensions.
\<close>

theorem drawLine_terminates:
  assumes "wf_image img"
    and "3 * \<bar>sint (getX p2) - sint (getX p1)\<bar> < 2 ^ 31"
    and "3 * \<bar>sint (getY p2) - sint (getY p1)\<bar> < 2 ^ 31"
  shows "\<exists>img'. drawLine img p1 p2 v = Some (Inr img') \<and> wf_image img'
           \<and> m_width img' = m_width img \<and> m_height img' = m_height img"
proof -
  have rng: "- (2 ^ 31) \<le> sint w" "sint w < 2 ^ 31" for w :: cint
    using sint_ge [of w] sint_lt [of w] by simp_all
  from drawLine_init_inv [OF assms(2,3) rng rng rng rng]
  obtain dx dy sx sy err where
    i: "drawLine_init (sint (getX p1)) (sint (getY p1)) (sint (getX p2)) (sint (getY p2))
        = Inr (dx, dy, sx, sy, err)"
      "drawLine_inv (sint (getX p2)) (sint (getY p2)) dx dy sx sy
         (sint (getX p1)) (sint (getY p1)) err"
    by blast
  from drawLine_loop_terminates [OF assms(1) i(2), of v] i(1) show ?thesis
    by (simp add: drawLine_def)
qed

theorem drawLine_terminates_witness:
  "wf_image (image_of 4 3 (\<lambda>i j. 0))
   \<and> (\<exists>img'. drawLine (image_of 4 3 (\<lambda>i j. 0)) \<lparr>Point_x = - 2, Point_y = 5\<rparr>
                \<lparr>Point_x = 7, Point_y = 1\<rparr> 9 = Some (Inr img')
            \<and> m_width img' = 4 \<and> m_height img' = 3)"
proof -
  let ?img = "image_of 4 3 (\<lambda>i j. 0)"
  let ?p1 = "\<lparr>Point_x = - 2, Point_y = 5\<rparr>" and ?p2 = "\<lparr>Point_x = 7, Point_y = 1\<rparr>"
  have wf: "wf_image ?img"
    by simp
  have small: "3 * \<bar>sint (getX ?p2) - sint (getX ?p1)\<bar> < 2 ^ 31"
    "3 * \<bar>sint (getY ?p2) - sint (getY ?p1)\<bar> < 2 ^ 31"
    by (simp_all add: getX_def getY_def)
  from drawLine_terminates [OF wf small, of 9] wf show ?thesis
    by auto
qed

text \<open>
  Claim C9 as stated fails: from \<open>(0, 0)\<close> to \<open>(2000000000, 0)\<close> the first iteration
  computes \<open>2 * err\<close> with \<open>err = 2000000000\<close>, which is not an \<open>int\<close>.
\<close>

theorem drawLine_overflow_counterexample:
  "drawLine Image_default \<lparr>Point_x = 0, Point_y = 0\<rparr>
     \<lparr>Point_x = 2000000000, Point_y = 0\<rparr> 0 = Some (Inl SignedOverflow)"
  apply (simp add: drawLine_def getX_def getY_def drawLine_init_def int_ok_def)
  apply (subst drawLine_loop.simps)
  apply (simp add: drawLine_plot_def Image_default_def drawLine_step_def int_ok_def)
  done

section \<open>Circles\<close>

text \<open>
  Claim C1 fails on the code. On an image 3 wide and 1 high, the circle of radius 0 at
  \<open>(2, 0)\<close> passes the bounds check and then writes \<open>m_data[2][0]\<close>, a row the image
  does not have. On a 3 by 3 image the same call sets the pixel at \<open>(0, 2)\<close> and leaves
  the pixel at \<open>(2, 0)\<close>, the centre, as it was.
\<close>

theorem drawCircle_swaps_coordinates:
  "drawCircle \<lparr>m_data = Some [[0, 0, 0]], m_width = 3, m_height = 1, m_isGrayscale = True\<rparr>
     \<lparr>Point_x = 2, Point_y = 0\<rparr> 0 255 = Inl OutOfBounds
   \<and> drawCircle \<lparr>m_data = Some [[0, 0, 0], [0, 0, 0], [0, 0, 0]], m_width = 3, m_height = 3,
                   m_isGrayscale = True\<rparr>
     \<lparr>Point_x = 2, Point_y = 0\<rparr> 0 255
     = Inr \<lparr>m_data = Some [[0, 0, 0], [0, 0, 0], [255, 0, 0]], m_width = 3, m_height = 3,
             m_isGrayscale = True\<rparr>"
  by (simp add: drawCircle_def int_ok_def getX_def getY_def drawCircle_octants_def
        drawCircle_plot_def drawCircle_next_def Image_at_write_def data_write_def)

section \<open>Assignment\<close>

lemma Image_assign_ctor:
  assumes "wf_image dst"
  shows "Image_assign g dst (Image_ctor g' w h) = Inr (image_of w h g')"
proof -
  obtain t where t: "deallocateMemory dst = Inr t"
    using assms by (auto simp: deallocateMemory_def wf_image_def split: option.splits)
  have src: "Image_ctor g' w h = image_of w h g'"
    by (simp add: Image_ctor_def allocateMemory_def image_of_def)
  have "copyFrom g t (image_of w h g')
        = Inr ((allocateMemory g (t\<lparr>m_width := w, m_height := h, m_isGrayscale := True\<rparr>))
                 \<lparr>m_data := Some (map (\<lambda>i. map (g' i) [0..<unat w]) [0..<unat h])\<rparr>)"
    unfolding copyFrom_def image_of_simps
    by (rule assign_pixels_rows [where rows = "map (\<lambda>i. map (\<lambda>j. g i j) [0..<unat w]) [0..<unat h]"])
       (simp_all add: allocateMemory_def data_read_wf)
  moreover have "(allocateMemory g (t\<lparr>m_width := w, m_height := h, m_isGrayscale := True\<rparr>))
                 \<lparr>m_data := Some (map (\<lambda>i. map (g' i) [0..<unat w]) [0..<unat h])\<rparr>
                 = image_of w h g'"
    by (simp add: allocateMemory_def image_of_def)
  ultimately show ?thesis
    by (simp add: Image_assign_def t src)
qed

lemma assign_pixels_image_of:
  assumes "\<And>i j. i < unat h \<Longrightarrow> j < unat w \<Longrightarrow> e i j = Inr (f i j)"
  shows "assign_pixels (unat h) (unat w) e (image_of w h g) = Inr (image_of w h f)"
  using assign_pixels_ctor [of h w e f g, OF assms]
  by (simp add: Image_ctor_def allocateMemory_def image_of_def)

section \<open>Region of interest\<close>

lemma unat_plus_no_wrap:
  fixes a b :: uint
  assumes "unat a + unat b < 2 ^ 32"
  shows "unat (a + b) = unat a + unat b"
  using assms by (simp add: unat_add_lem [THEN iffD1])

lemma unat_index:
  fixes n :: uint
  assumes "i < unat n"
  shows "unat (word_of_nat i :: uint) = i"
  using assms by (intro le_unat_uoi [of i n]) simp

lemma unat_plus_index:
  fixes a b :: uint
  assumes "unat a + unat b < 2 ^ 32" "i < unat b"
  shows "unat (a + word_of_nat i) = unat a + i"
  using assms unat_index [OF assms(2)] unat_plus_no_wrap [of a "word_of_nat i"] by simp

text \<open>
  Where neither \<open>x + width\<close> nor \<open>y + height\<close> exceeds the range of \<open>unsigned int\<close>,
  \<open>getROI\<close> does what claim C4 says: it returns false and leaves the destination as it
  was exactly when the region exceeds the source, and otherwise returns true with the
  destination holding the region.
\<close>

lemma getROI_in_range:
  assumes "wf_image src" "wf_image dst"
    and "unat x + unat w < 2 ^ 32" "unat y + unat h < 2 ^ 32"
  shows "getROI g src dst x y w h
         = (if unat (m_width src) < unat x + unat w \<or> unat (m_height src) < unat y + unat h
            then Inr (False, dst)
            else Inr (True, image_of w h (\<lambda>i j. pixel src (unat x + j) (unat y + i))))"
proof (cases "unat (m_width src) < unat x + unat w \<or> unat (m_height src) < unat y + unat h")
  case True
  then have "x + w > m_width src \<or> y + h > m_height src"
    using assms(3,4) by (simp add: word_less_nat_alt unat_plus_no_wrap)
  with True show ?thesis by (simp add: getROI_def)
next
  case False
  then have inside: "unat x + unat w \<le> unat (m_width src)" "unat y + unat h \<le> unat (m_height src)"
    by simp_all
  from False have guard: "\<not> (x + w > m_width src \<or> y + h > m_height src)"
    using assms(3,4) by (simp add: word_less_nat_alt unat_plus_no_wrap)
  have "assign_pixels (unat h) (unat w)
          (\<lambda>i j. data_read src (unat (y + word_of_nat i)) (unat (x + word_of_nat j)))
          (image_of w h g)
        = Inr (image_of w h (\<lambda>i j. pixel src (unat x + j) (unat y + i)))"
  proof (rule assign_pixels_image_of)
    fix i j assume ij: "i < unat h" "j < unat w"
    have "unat (y + word_of_nat i) = unat y + i" "unat (x + word_of_nat j) = unat x + j"
      using unat_plus_index [OF assms(4) ij(1)] unat_plus_index [OF assms(3) ij(2)] by simp_all
    moreover have "unat y + i < unat (m_height src)" "unat x + j < unat (m_width src)"
      using inside ij by simp_all
    ultimately show "data_read src (unat (y + word_of_nat i)) (unat (x + word_of_nat j))
                     = Inr (pixel src (unat x + j) (unat y + i))"
      using data_read_wf [OF assms(1)] by simp
  qed
  with guard False show ?thesis
    by (simp add: getROI_def Image_assign_ctor [OF assms(2)])
qed

lemma isEmpty_image_of: "isEmpty (image_of w h f) \<longleftrightarrow> w = 0 \<or> h = 0"
  by (simp add: isEmpty_def image_of_def)

text \<open>
  Claim C4 fails on the code where a sum wraps around. On a source 2 wide and 1 high,
  \<open>x = 4294967295\<close> and \<open>width = 2\<close> give \<open>x + width = 1\<close>, which passes the check. With
  \<open>height = 0\<close> the call returns true and replaces the destination; with \<open>height = 1\<close> it
  reads \<open>m_data[0][4294967295]\<close>.
\<close>

theorem getROI_wraps_around:
  "getROI zero_garbage
     \<lparr>m_data = Some [[1, 2]], m_width = 2, m_height = 1, m_isGrayscale = True\<rparr>
     Image_default 4294967295 0 2 0
   = Inr (True, \<lparr>m_data = Some [], m_width = 2, m_height = 0, m_isGrayscale = True\<rparr>)
   \<and> getROI zero_garbage
     \<lparr>m_data = Some [[1, 2]], m_width = 2, m_height = 1, m_isGrayscale = True\<rparr>
     Image_default 4294967295 0 2 1
   = Inl OutOfBounds"
  by (simp add: getROI_def Image_assign_def Image_default_def deallocateMemory_def copyFrom_def
        Image_ctor_def allocateMemory_def assign_pixels_def data_read_def data_write_def upt_rec
        zero_garbage_def)

section \<open>Filters on distinct objects\<close>

lemma for_loop_cong_set:
  assumes "\<And>i t. i \<in> set is \<Longrightarrow> body i t = body' i t"
  shows "for_loop is body s = for_loop is body' s"
  using assms by (induction "is" arbitrary: s) (auto split: sum.splits)

lemma deref_Some: "\<sigma> a = Some img \<Longrightarrow> deref \<sigma> a = Inr img"
  by (simp add: deref_def)

lemma for_loop_Cons_bind:
  "for_loop (i # is) body s = bind_err (body i s) (for_loop is body)"
  by (simp add: bind_err_def)

text \<open>
  With source and destination in different objects, the loops over the store are the
  loops over the destination alone.
\<close>

lemma store_row:
  assumes "s \<noteq> d" "\<tau> s = Some src" "\<tau> d = Some r"
  shows "for_loop xs (\<lambda>x \<tau>.
           bind_err (deref \<tau> s) (\<lambda>si.
           bind_err (e si x) (\<lambda>v.
           bind_err (deref \<tau> d) (\<lambda>di.
           bind_err (w di x v) (\<lambda>di'. Inr (\<tau>(d \<mapsto> di'))))))) \<tau>
         = bind_err (for_loop xs (\<lambda>x r. bind_err (e src x) (\<lambda>v. w r x v)) r)
             (\<lambda>r'. Inr (\<tau>(d \<mapsto> r')))"
  using assms(2,3)
proof (induction xs arbitrary: \<tau> r)
  case Nil
  have "\<tau>(d \<mapsto> r) = \<tau>"
    using Nil(2) by (rule map_upd_triv)
  then show ?case
    by (simp only: for_loop.simps bind_err_Inr)
next
  case (Cons x xs)
  note d = deref_Some [of \<tau> s src, OF Cons.prems(1)] deref_Some [of \<tau> d r, OF Cons.prems(2)]
  show ?case
  proof (cases "e src x")
    case (Inl err)
    then show ?thesis
      by (simp only: for_loop_Cons_bind d bind_err_Inr bind_err_Inl)
  next
    case (Inr v)
    show ?thesis
    proof (cases "w r x v")
      case (Inl err)
      with Inr show ?thesis
        by (simp only: for_loop_Cons_bind d bind_err_Inr bind_err_Inl)
    next
      case r': (Inr r')
      have "(\<tau>(d \<mapsto> r')) s = Some src" "(\<tau>(d \<mapsto> r')) d = Some r'"
        using assms(1) Cons.prems by simp_all
      from Cons.IH [OF this] Inr r' show ?thesis
        by (simp only: for_loop_Cons_bind d bind_err_Inr fun_upd_upd)
    qed
  qed
qed

lemma store_rows:
  assumes "s \<noteq> d" "\<tau> s = Some src" "\<tau> d = Some r"
  shows "for_loop ys (\<lambda>y. for_loop xs (\<lambda>x \<tau>.
           bind_err (deref \<tau> s) (\<lambda>si.
           bind_err (e si x y) (\<lambda>v.
           bind_err (deref \<tau> d) (\<lambda>di.
           bind_err (w di x y v) (\<lambda>di'. Inr (\<tau>(d \<mapsto> di')))))))) \<tau>
         = bind_err (for_loop ys (\<lambda>y. for_loop xs
                       (\<lambda>x r. bind_err (e src x y) (\<lambda>v. w r x y v))) r)
             (\<lambda>r'. Inr (\<tau>(d \<mapsto> r')))"
  using assms(2,3)
proof (induction ys arbitrary: \<tau> r)
  case Nil
  have "\<tau>(d \<mapsto> r) = \<tau>"
    using Nil(2) by (rule map_upd_triv)
  then show ?case
    by (simp only: for_loop.simps bind_err_Inr)
next
  case (Cons y ys)
  have row: "for_loop xs (\<lambda>x \<tau>.
           bind_err (deref \<tau> s) (\<lambda>si.
           bind_err (e si x y) (\<lambda>v.
           bind_err (deref \<tau> d) (\<lambda>di.
           bind_err (w di x y v) (\<lambda>di'. Inr (\<tau>(d \<mapsto> di'))))))) \<tau>
         = bind_err (for_loop xs (\<lambda>x r. bind_err (e src x y) (\<lambda>v. w r x y v)) r)
             (\<lambda>r'. Inr (\<tau>(d \<mapsto> r')))"
    using store_row [OF assms(1) Cons.prems, of xs "\<lambda>si x. e si x y" "\<lambda>di x v. w di x y v"] .
  show ?case
  proof (cases "for_loop xs (\<lambda>x r. bind_err (e src x y) (\<lambda>v. w r x y v)) r")
    case (Inl err)
    with row show ?thesis
      by (simp only: for_loop_Cons_bind bind_err_Inl)
  next
    case (Inr r')
    have "(\<tau>(d \<mapsto> r')) s = Some src" "(\<tau>(d \<mapsto> r')) d = Some r'"
      using assms(1) Cons.prems by simp_all
    from Cons.IH [OF this] Inr row show ?thesis
      by (simp only: for_loop_Cons_bind bind_err_Inr fun_upd_upd)
  qed
qed

lemma process_distinct:
  assumes "s \<noteq> d" "\<sigma> s = Some src" "\<sigma> d = Some dst" "wf_image src" "wf_image dst"
    and px: "\<And>x y. x < unat (m_width src) \<Longrightarrow> y < unat (m_height src)
               \<Longrightarrow> filter_pixel f src x y = Inr (F y x)"
  shows "process f g s d \<sigma> = Inr (\<sigma>(d \<mapsto> image_of (m_width src) (m_height src) F))"
proof -
  let ?w = "m_width src" and ?h = "m_height src"
  let ?d1 = "image_of ?w ?h g"
  let ?\<tau> = "\<sigma>(d \<mapsto> ?d1)"
  have \<tau>: "?\<tau> s = Some src" "?\<tau> d = Some ?d1"
    using assms(1,2) by simp_all
  have inner: "for_loop [0..<unat ?w]
                 (\<lambda>x r. bind_err (filter_pixel f src x y)
                          (\<lambda>v. Image_at_write r (word_of_nat x) (word_of_nat y) v)) r
               = for_loop [0..<unat ?w]
                 (\<lambda>x r. bind_err (filter_pixel f src x y) (\<lambda>v. data_write r y x v)) r"
    if "y \<in> set [0..<unat ?h]" for y r
  proof (rule for_loop_cong_set)
    fix x t assume "x \<in> set [0..<unat ?w]"
    then have "unat (word_of_nat x :: uint) = x" "unat (word_of_nat y :: uint) = y"
      using that unat_index [of x ?w] unat_index [of y ?h] by simp_all
    then show "bind_err (filter_pixel f src x y)
                 (\<lambda>v. Image_at_write t (word_of_nat x) (word_of_nat y) v)
               = bind_err (filter_pixel f src x y) (\<lambda>v. data_write t y x v)"
      by (simp add: Image_at_write_def)
  qed
  have "for_loop [0..<unat ?h] (\<lambda>y. for_loop [0..<unat ?w]
          (\<lambda>x r. bind_err (filter_pixel f src x y)
                   (\<lambda>v. Image_at_write r (word_of_nat x) (word_of_nat y) v))) ?d1
        = assign_pixels (unat ?h) (unat ?w) (\<lambda>y x. filter_pixel f src x y) ?d1"
    unfolding assign_pixels_def
    by (rule for_loop_cong_set) (rule inner)
  also have "\<dots> = Inr (image_of ?w ?h F)"
    by (rule assign_pixels_image_of) (rule px)
  finally have loops: "for_loop [0..<unat ?h] (\<lambda>y. for_loop [0..<unat ?w]
          (\<lambda>x r. bind_err (filter_pixel f src x y)
                   (\<lambda>v. Image_at_write r (word_of_nat x) (word_of_nat y) v))) ?d1
        = Inr (image_of ?w ?h F)" .
  have "for_loop [0..<unat ?h] (\<lambda>y. for_loop [0..<unat ?w] (\<lambda>x \<tau>.
           bind_err (deref \<tau> s) (\<lambda>si.
           bind_err (filter_pixel f si x y) (\<lambda>v.
           bind_err (deref \<tau> d) (\<lambda>di.
           bind_err (Image_at_write di (word_of_nat x) (word_of_nat y) v) (\<lambda>di'.
           Inr (\<tau>(d \<mapsto> di')))))))) ?\<tau>
        = Inr (\<sigma>(d \<mapsto> image_of ?w ?h F))"
    using store_rows [OF assms(1) \<tau>, of "[0..<unat ?h]" "[0..<unat ?w]"
        "\<lambda>si x y. filter_pixel f si x y"
        "\<lambda>di x y v. Image_at_write di (word_of_nat x) (word_of_nat y) v"]
    by (simp only: loops bind_err_Inr fun_upd_upd)
  then show ?thesis
    unfolding process_def
    by (simp only: deref_Some [of \<sigma> s src, OF assms(2)] deref_Some [of \<sigma> d dst, OF assms(3)]
          deref_Some [of ?\<tau> s src, OF \<tau>(1)] Image_assign_ctor [OF assms(5)] bind_err_Inr)
qed

lemma Image_at_word:
  assumes "wf_image src" "X < m_width src" "Y < m_height src"
  shows "Image_at src X Y = Inr (pixel src (unat X) (unat Y))"
  using assms data_read_wf [OF assms(1), of "unat Y" "unat X"]
  by (simp add: Image_at_def word_less_nat_alt)










section \<open>The identity kernel\<close>

lemma sint_of_nat_nonneg:
  assumes "x < 2 ^ 32"
  shows "0 \<le> sint (word_of_nat x :: cint) \<longleftrightarrow> x < 2 ^ 31"
proof -
  have u: "uint (word_of_nat x :: cint) = int x"
    using assms by (simp add: uint_word_of_int take_bit_nat_eq_self unsigned_of_nat)
  show ?thesis
  proof (cases "x < 2 ^ 31")
    case True
    then have "signed_take_bit 31 (int x) = int x"
      by (intro signed_take_bit_int_eq_self) simp_all
    then have "sint (word_of_nat x :: cint) = int x"
      using sint_uint [of "word_of_nat x :: cint"] u by simp
    with True show ?thesis by simp
  next
    case False
    then have "2 ^ 31 \<le> int x" by simp
    then have "signed_take_bit 31 (int x) \<le> int x - 2 ^ Suc 31"
      by (rule signed_take_bit_int_less_eq)
    then have "sint (word_of_nat x :: cint) \<le> int x - 2 ^ 32"
      using sint_uint [of "word_of_nat x :: cint"] u by simp
    with assms False show ?thesis by simp
  qed
qed

lemma convolution_tap_zero:
  assumes "wf_image src" "kernel_read kern ky kx = Inr 0"
  shows "convolution_tap kern rx ry src x y ky kx acc = Inr acc"
  using assms(2)
  by (simp add: convolution_tap_def Let_def Image_at_word [OF assms(1)])

lemma convolution_tap_centre:
  assumes "wf_image src" "x < unat (m_width src)" "y < unat (m_height src)"
    and "kernel_read kern (Suc 0) (Suc 0) = Inr 1"
  shows "convolution_tap kern 1 1 src x y (Suc 0) (Suc 0) acc
         = Inr (acc + (if x < 2 ^ 31 \<and> y < 2 ^ 31 then real_of_int (uint (pixel src x y))
                       else 0))"
proof -
  have lt: "x < 2 ^ 32" "y < 2 ^ 32"
    using assms(2,3) unsigned_less [of "m_width src", where 'a = nat]
      unsigned_less [of "m_height src", where 'a = nat]
    by simp_all
  have idx: "unat (word_of_nat x :: uint) = x" "unat (word_of_nat y :: uint) = y"
    using unat_index [OF assms(2)] unat_index [OF assms(3)] by simp_all
  then have inside: "(word_of_nat x :: uint) < m_width src" "(word_of_nat y :: uint) < m_height src"
    using assms(2,3) by (simp_all add: word_less_nat_alt)
  show ?thesis
    using assms(4) idx
    by (simp add: convolution_tap_def Let_def inside Image_at_word [OF assms(1) inside]
          sint_of_nat_nonneg [OF lt(1)] sint_of_nat_nonneg [OF lt(2)])
qed

lemma to_int_of_int:
  assumes "- (2 ^ 31) \<le> k" "k < 2 ^ 31"
  shows "to_int (real_of_int k) = Inr k"
  using assms by (simp add: to_int_def)

lemma to_int_unsigned [simp]: "to_int (unsigned (p :: byte)) = Inr (uint p)"
proof -
  have eq: "(unsigned p :: real) = real_of_int (uint p)"
    by simp
  have nn: "(0 :: int) \<le> uint p"
    by simp
  have "- (2 ^ 31) \<le> (0 :: int)"
    by simp
  then have lo: "- (2 ^ 31) \<le> uint p"
    using nn by (rule order_trans)
  have hi: "uint p < 2 ^ 31"
    using uint_bounded [of p] by simp
  have "to_int (real_of_int (uint p)) = Inr (uint p)"
    using lo hi by (rule to_int_of_int)
  then show ?thesis
    by (simp only: eq)
qed

lemma to_int_0 [simp]: "to_int 0 = Inr 0"
  by (simp add: to_int_def)

lemma clamp_byte [simp]: "word_of_int (min 255 (uint (p :: byte))) = p"
proof -
  have "uint p < 256" using uint_bounded [of p] by simp
  then have "min 255 (uint p) = uint p" by simp
  then show ?thesis by simp
qed

lemma identity_convolution_pixel:
  assumes "wf_image src" "x < unat (m_width src)" "y < unat (m_height src)"
  shows "filter_pixel identity_convolution src x y
         = Inr (if x < 2 ^ 31 \<and> y < 2 ^ 31 then pixel src x y else 0)"
proof -
  let ?k = "[[0, 0, 0], [0, 1, 0], [0, 0, 0]] :: real list list"
  have z: "kernel_read ?k 0 0 = Inr 0" "kernel_read ?k 0 (Suc 0) = Inr 0"
    "kernel_read ?k 0 2 = Inr 0"
    "kernel_read ?k (Suc 0) 0 = Inr 0" "kernel_read ?k (Suc 0) 2 = Inr 0"
    "kernel_read ?k 2 0 = Inr 0" "kernel_read ?k 2 (Suc 0) = Inr 0" "kernel_read ?k 2 2 = Inr 0"
    and c: "kernel_read ?k (Suc 0) (Suc 0) = Inr 1"
    by (simp_all add: kernel_read_def)
  note zero = z [THEN convolution_tap_zero [OF assms(1)]]
  have upt3: "[0..<nat (sint (3 :: cint))] = [0, 1, 2]"
    by (simp add: upt_rec)
  have "for_loop [0..<nat (sint (3 :: cint))]
          (\<lambda>ky. for_loop [0..<nat (sint (3 :: cint))] (convolution_tap ?k 1 1 src x y ky)) 0
        = Inr (if x < 2 ^ 31 \<and> y < 2 ^ 31 then real_of_int (uint (pixel src x y)) else 0)"
    unfolding upt3
    by (simp add: zero convolution_tap_centre [OF assms c])
  then show ?thesis
    by (simp add: identity_convolution_def convolution_pixel_def half_def)
qed

lemma two_objects_simps [simp]:
  "two_objects a b 0 = Some a" "two_objects a b (Suc 0) = Some b"
  by (simp_all add: two_objects_def)

lemma wf_Image_default [simp]: "wf_image Image_default"
  by (simp add: wf_image_def Image_default_def)

text \<open>
  Claim C3, amended. For every image, \<open>Convolution\<close> with the 3 by 3 identity kernel and
  the identity scaling function produces a destination of the source's dimensions that
  equals the source at every pixel \<open>(x, y)\<close> with \<open>x < 2^31\<close> and \<open>y < 2^31\<close>, boundary
  pixels included: at every pixel of an image that is at most \<open>2^31\<close> wide and high.
\<close>

theorem identity_convolution_reproduces:
  assumes "src \<noteq> dst" "\<sigma> src = Some s" "\<sigma> dst = Some d" "wf_image s" "wf_image d"
  shows "\<exists>d'. process identity_convolution g src dst \<sigma> = Inr (\<sigma>(dst \<mapsto> d'))
           \<and> wf_image d' \<and> m_width d' = m_width s \<and> m_height d' = m_height s
           \<and> (\<forall>y<unat (m_height s). \<forall>x<unat (m_width s).
                 x < 2 ^ 31 \<longrightarrow> y < 2 ^ 31 \<longrightarrow> pixel d' x y = pixel s x y)"
proof -
  let ?d' = "image_of (m_width s) (m_height s)
               (\<lambda>y x. if x < 2 ^ 31 \<and> y < 2 ^ 31 then pixel s x y else 0)"
  have "process identity_convolution g src dst \<sigma> = Inr (\<sigma>(dst \<mapsto> ?d'))"
    by (rule process_distinct [OF assms]) (rule identity_convolution_pixel [OF assms(4)])
  then show ?thesis
    by (intro exI [of _ ?d']) simp
qed

theorem identity_convolution_reproduces_witness:
  "wf_image (image_of 2 2 white_pixels)
   \<and> (\<exists>d'. process identity_convolution zero_garbage 0 1
              (two_objects (image_of 2 2 white_pixels) Image_default)
            = Inr ((two_objects (image_of 2 2 white_pixels) Image_default)(1 \<mapsto> d'))
          \<and> pixel d' 0 0 = 255 \<and> pixel d' 1 1 = 255)"
proof -
  let ?s = "image_of 2 2 white_pixels"
  let ?\<sigma> = "two_objects ?s Image_default"
  have wf: "wf_image ?s" by simp
  have objs: "(0 :: nat) \<noteq> 1" "?\<sigma> 0 = Some ?s" "?\<sigma> 1 = Some Image_default"
    by simp_all
  from identity_convolution_reproduces [OF objs wf wf_Image_default, of zero_garbage]
  obtain d' where d': "process identity_convolution zero_garbage 0 1 ?\<sigma> = Inr (?\<sigma>(1 \<mapsto> d'))"
    "\<forall>y<unat (m_height ?s). \<forall>x<unat (m_width ?s).
        x < 2 ^ 31 \<longrightarrow> y < 2 ^ 31 \<longrightarrow> pixel d' x y = pixel ?s x y"
    by blast
  from d'(2) have "pixel d' 0 0 = 255" "pixel d' 1 1 = 255"
    by (simp_all add: white_pixels_def)
  with d'(1) wf show ?thesis by blast
qed

text \<open>
  Claim C3 as stated fails: in an image \<open>2^31 + 1\<close> wide, the column \<open>x = 2^31\<close> gives a
  negative \<open>srcX\<close> for the centre of the kernel, the tap is left out, and the pixel of
  the destination is 0 where the source has 255.
\<close>

theorem identity_convolution_wide_counterexample:
  "result_pixel (process identity_convolution zero_garbage 0 1
                   (two_objects wide_image Image_default)) 1 2147483648 0 = Inr 0
   \<and> data_read wide_image 0 2147483648 = Inr 255"
proof -
  let ?\<sigma> = "two_objects wide_image Image_default"
  let ?d' = "image_of (m_width wide_image) (m_height wide_image)
               (\<lambda>y x. if x < 2 ^ 31 \<and> y < 2 ^ 31 then pixel wide_image x y else 0)"
  have wf: "wf_image wide_image"
    by (simp add: wide_image_def)
  have dims: "unat (m_width wide_image) = 2147483649" "unat (m_height wide_image) = 1"
    by (simp_all add: wide_image_def)
  have objs: "(0 :: nat) \<noteq> 1" "?\<sigma> 0 = Some wide_image" "?\<sigma> 1 = Some Image_default"
    by simp_all
  have p: "process identity_convolution zero_garbage 0 1 ?\<sigma> = Inr (?\<sigma>(1 \<mapsto> ?d'))"
    by (rule process_distinct [OF objs wf wf_Image_default])
       (rule identity_convolution_pixel [OF wf])
  have "data_read ?d' 0 2147483648 = Inr (pixel ?d' 2147483648 0)"
    by (rule data_read_wf) (simp_all add: dims)
  also have "pixel ?d' 2147483648 0 = 0"
    by (subst pixel_image_of) (simp_all add: dims)
  finally have "result_pixel (Inr (?\<sigma>(1 \<mapsto> ?d'))) 1 2147483648 0 = Inr 0"
    by (simp add: result_pixel_def deref_def)
  moreover have "data_read wide_image 0 2147483648 = Inr (pixel wide_image 2147483648 0)"
    by (rule data_read_wf [OF wf]) (simp_all add: dims)
  moreover have "pixel wide_image 2147483648 0 = 255"
    unfolding wide_image_def
    by (subst pixel_image_of) (simp_all add: white_pixels_def)
  ultimately show ?thesis
    by (simp only: p)
qed

section \<open>Saving and loading\<close>

lemma digit_byte:
  assumes "k < 10"
  shows "unat (word_of_nat (48 + k) :: byte) = 48 + k"
proof -
  have "48 + k \<le> unat (255 :: byte)" using assms by simp
  then show ?thesis by (rule le_unat_uoi)
qed

lemma digit_byte': "k < 10 \<Longrightarrow> unat (48 + word_of_nat k :: byte) = 48 + k"
  using digit_byte [of k] by simp

lemma isdigit_digit: "k < 10 \<Longrightarrow> isdigit (48 + word_of_nat k)"
  using digit_byte' [of k] by (simp add: isdigit_def word_le_nat_alt)

lemma isdigit_not_space: 
  assumes "isdigit c" shows "\<not> isspace c"
proof -
  have "48 \<le> unat c" using assms by (simp add: isdigit_def word_le_nat_alt)
  then have "c \<noteq> 32" "\<not> c \<le> 13"
    by (auto simp: word_le_nat_alt)
  then show ?thesis by (simp add: isspace_def)
qed

lemma decimal_small: "n < 10 \<Longrightarrow> decimal n = [48 + word_of_nat n]"
  by (subst decimal.simps) simp

lemma decimal_large:
  "\<not> n < 10 \<Longrightarrow> decimal n = decimal (n div 10) @ [48 + word_of_nat (n mod 10)]"
  by (subst decimal.simps) simp

lemma decimal_digits: "\<forall>d \<in> set (decimal n). isdigit d"
proof (induction n rule: decimal.induct)
  case (1 n)
  show ?case
  proof (cases "n < 10")
    case True
    then show ?thesis by (simp add: decimal_small isdigit_digit)
  next
    case False
    then show ?thesis
      using 1 by (simp add: decimal_large isdigit_digit)
  qed
qed

lemma decimal_not_Nil: "decimal n \<noteq> []"
  by (cases "n < 10") (simp_all add: decimal_small decimal_large)

lemma digits_value_snoc: "digits_value acc (ds @ [d]) = 10 * digits_value acc ds + (unat d - 48)"
  by (simp add: digits_value_def)

lemma digits_value_decimal: "digits_value 0 (decimal n) = n"
proof (induction n rule: decimal.induct)
  case (1 n)
  show ?case
  proof (cases "n < 10")
    case True
    then show ?thesis
      by (simp add: decimal_small digits_value_def digit_byte')
  next
    case False
    then have "digits_value 0 (decimal (n div 10)) = n div 10"
      using 1 by simp
    moreover have "unat (48 + word_of_nat (n mod 10) :: byte) = 48 + n mod 10"
      by (rule digit_byte') simp
    ultimately show ?thesis
      using False by (simp add: decimal_large digits_value_snoc)
  qed
qed

lemma takeWhile_digits:
  assumes "\<not> isdigit c"
  shows "takeWhile isdigit (decimal n @ c # rest) = decimal n"
    and "dropWhile isdigit (decimal n @ c # rest) = c # rest"
  using assms decimal_digits [of n]
  by (simp_all add: takeWhile_tail dropWhile_append3)

lemma dropWhile_space_decimal: "dropWhile isspace (decimal n @ rest) = decimal n @ rest"
proof -
  obtain d ds where d: "decimal n = d # ds"
    using decimal_not_Nil [of n] by (cases "decimal n") simp_all
  then have "isdigit d"
    using decimal_digits [of n] by simp
  then show ?thesis
    using d by (simp add: isdigit_not_space)
qed

lemma isdigit_not_sign: "isdigit c \<Longrightarrow> c \<noteq> 43 \<and> c \<noteq> 45"
  by (auto simp: isdigit_def word_le_nat_alt)

lemma after_sign_decimal:
  "after_sign (decimal n @ rest) = decimal n @ rest" "hd (decimal n) \<noteq> 45"
proof -
  obtain d ds where d: "decimal n = d # ds"
    using decimal_not_Nil [of n] by (cases "decimal n") simp_all
  then have "isdigit d"
    using decimal_digits [of n] by simp
  then have "d \<noteq> 43 \<and> d \<noteq> 45"
    by (rule isdigit_not_sign)
  then show "after_sign (decimal n @ rest) = decimal n @ rest" "hd (decimal n) \<noteq> 45"
    using d by (simp_all add: after_sign_def)
qed

lemma extract_unsigned_decimal:
  assumes "\<not> isdigit c" "isspace b"
  shows "extract_unsigned \<lparr>buf = b # decimal (unat v) @ c # rest, good = True\<rparr> old
         = (v, \<lparr>buf = c # rest, good = True\<rparr>)"
proof -
  have lt: "unat v < 2 ^ 32"
    using unsigned_less [of v, where 'a = nat] by simp
  have sk: "skip_space \<lparr>buf = b # decimal (unat v) @ c # rest, good = True\<rparr>
            = \<lparr>buf = decimal (unat v) @ c # rest, good = True\<rparr>"
    using assms(2) by (simp add: skip_space_def Let_def dropWhile_space_decimal decimal_not_Nil)
  show ?thesis
    unfolding extract_unsigned_def sk Let_def
    using lt
    by (simp add: after_sign_decimal takeWhile_digits [OF assms(1)] decimal_not_Nil
          digits_value_decimal)
qed

lemma space_values [simp]: "isspace 10" "isspace 32" "\<not> isspace 80" "\<not> isspace 53"
  "\<not> isdigit 10" "\<not> isdigit 32" "isdigit 50" "isdigit 53"
  by (simp_all add: isspace_def isdigit_def)

lemma extract_string_header:
  "extract_string \<lparr>buf = header w h @ data, good = True\<rparr>
   = (P5, \<lparr>buf = 10 # decimal (unat w) @ 32 # decimal (unat h) @ [10, 50, 53, 53, 10] @ data,
           good = True\<rparr>)"
  by (simp add: extract_string_def skip_space_def header_def P5_def Let_def)

lemma extract_int_255:
  "extract_int \<lparr>buf = [10, 50, 53, 53, 10] @ data, good = True\<rparr>
   = \<lparr>buf = 10 # data, good = True\<rparr>"
proof -
  have sk: "skip_space \<lparr>buf = [10, 50, 53, 53, 10] @ data, good = True\<rparr>
            = \<lparr>buf = 50 # 53 # 53 # 10 # data, good = True\<rparr>"
    by (simp add: skip_space_def Let_def isspace_def)
  have tk: "takeWhile isdigit (50 # 53 # 53 # 10 # data) = [50, 53, 53]"
    "dropWhile isdigit (50 # 53 # 53 # 10 # data) = 10 # data"
    by simp_all
  have v: "digits_value 0 [50, 53, 53] = 255"
    by (simp add: digits_value_def)
  have sg: "after_sign (50 # 53 # 53 # 10 # data) = 50 # 53 # 53 # 10 # data"
    by (simp add: after_sign_def)
  show ?thesis
    unfolding extract_int_def sk Let_def
    by (simp add: sg tk v)
qed

lemma save_row:
  assumes "m_data img = Some rows" "i < length rows" "n \<le> length (rows ! i)"
  shows "for_loop [0..<n] (\<lambda>j file. bind_err (data_read img i j) (\<lambda>b. Inr (file @ [b]))) f0
         = Inr (f0 @ take n (rows ! i))"
  using assms(3)
proof (induction n)
  case 0
  show ?case by simp
next
  case (Suc n)
  then have "data_read img i n = Inr (rows ! i ! n)"
    using assms(1,2) by (simp add: data_read_def)
  with Suc show ?case
    by (simp add: for_loop_Suc take_Suc_conv_app_nth del: upt_Suc)
qed

lemma save_rows:
  assumes "m_data img = Some rows" "\<forall>r \<in> set rows. length r = w" "m \<le> length rows"
  shows "for_loop [0..<m] (\<lambda>i. for_loop [0..<w]
           (\<lambda>j file. bind_err (data_read img i j) (\<lambda>b. Inr (file @ [b])))) f0
         = Inr (f0 @ concat (take m rows))"
  using assms(3)
proof (induction m)
  case 0
  show ?case by simp
next
  case (Suc m)
  then have "length (rows ! m) = w"
    using assms(2) by simp
  then have "for_loop [0..<w] (\<lambda>j file. bind_err (data_read img m j) (\<lambda>b. Inr (file @ [b])))
               (f0 @ concat (take m rows))
             = Inr ((f0 @ concat (take m rows)) @ take w (rows ! m))"
    using Suc.prems by (intro save_row [OF assms(1)]) simp_all
  with Suc \<open>length (rows ! m) = w\<close> show ?case
    by (simp add: for_loop_Suc take_Suc_conv_app_nth del: upt_Suc)
qed

lemma save_bytes:
  assumes "wf_image img" "m_data img = Some rows"
  shows "save True img = Inr (True, header (m_width img) (m_height img) @ concat rows)"
proof -
  have "length rows = unat (m_height img)" "\<forall>r \<in> set rows. length r = unat (m_width img)"
    using assms by (simp_all add: wf_image_def)
  with save_rows [OF assms(2) this(2), of "unat (m_height img)"] show ?thesis
    by (simp add: save_def)
qed

lemma take_drop_update:
  assumes "n < length r" "n < length old"
  shows "(take n r @ drop n old)[n := r ! n] = take (Suc n) r @ drop (Suc n) old"
proof -
  have "drop n old = old ! n # drop (Suc n) old"
    using assms(2) by (simp add: Cons_nth_drop_Suc)
  then show ?thesis
    using assms(1) by (simp add: list_update_append take_Suc_conv_app_nth)
qed

lemma load_row:
  assumes "m_data img = Some rs" "i < length rs" "length (rs ! i) = length r" "n \<le> length r"
  shows "for_loop [0..<n] (\<lambda>j (img, s).
           case stream_read (g i j) s of (gray, s') \<Rightarrow>
             bind_err (data_write img i j gray) (\<lambda>img'. Inr (img', s')))
           (img, \<lparr>buf = r @ rest, good = True\<rparr>)
         = Inr (img\<lparr>m_data := Some (rs[i := take n r @ drop n (rs ! i)])\<rparr>,
                \<lparr>buf = drop n r @ rest, good = True\<rparr>)"
  using assms(4)
proof (induction n)
  case 0
  show ?case using assms(1,2) by simp
next
  case (Suc n)
  then have n: "n < length r" by simp
  then have rd: "stream_read (g i n) \<lparr>buf = drop n r @ rest, good = True\<rparr>
                 = (r ! n, \<lparr>buf = drop (Suc n) r @ rest, good = True\<rparr>)"
    using Cons_nth_drop_Suc [OF n, symmetric] by (simp add: stream_read_def)
  have wr: "data_write (img\<lparr>m_data := Some (rs[i := take n r @ drop n (rs ! i)])\<rparr>) i n (r ! n)
            = Inr (img\<lparr>m_data := Some (rs[i := take (Suc n) r @ drop (Suc n) (rs ! i)])\<rparr>)"
    using assms(2,3) n take_drop_update [of n r "rs ! i"]
    by (simp add: data_write_def)
  from Suc rd wr show ?case
    by (simp add: for_loop_Suc del: upt_Suc)
qed

lemma load_rows:
  assumes "m_data img = Some rs" "length rs = length rows"
    "\<forall>r \<in> set rs. length r = w" "\<forall>r \<in> set rows. length r = w" "m \<le> length rows"
  shows "for_loop [0..<m] (\<lambda>i. for_loop [0..<w] (\<lambda>j (img, s).
           case stream_read (g i j) s of (gray, s') \<Rightarrow>
             bind_err (data_write img i j gray) (\<lambda>img'. Inr (img', s'))))
           (img, \<lparr>buf = concat rows @ rest, good = True\<rparr>)
         = Inr (img\<lparr>m_data := Some (take m rows @ drop m rs)\<rparr>,
                \<lparr>buf = concat (drop m rows) @ rest, good = True\<rparr>)"
  using assms(5)
proof (induction m)
  case 0
  show ?case using assms(1) by simp
next
  case (Suc m)
  let ?cur = "take m rows @ drop m rs"
  let ?img = "img\<lparr>m_data := Some ?cur\<rparr>"
  have m: "m < length rows" "m < length rs"
    using Suc.prems assms(2) by simp_all
  then have len: "length (rows ! m) = w" "length (rs ! m) = w"
    using assms(3,4) by simp_all
  have cur: "m < length ?cur" "?cur ! m = rs ! m"
    using m by (simp_all add: nth_append)
  have split: "concat (drop m rows) @ rest = rows ! m @ (concat (drop (Suc m) rows) @ rest)"
    using Cons_nth_drop_Suc [OF m(1), symmetric] by simp
  have "for_loop [0..<w] (\<lambda>j (img, s).
           case stream_read (g m j) s of (gray, s') \<Rightarrow>
             bind_err (data_write img m j gray) (\<lambda>img'. Inr (img', s')))
           (?img, \<lparr>buf = rows ! m @ (concat (drop (Suc m) rows) @ rest), good = True\<rparr>)
        = Inr (?img\<lparr>m_data := Some (?cur[m := take w (rows ! m) @ drop w (?cur ! m)])\<rparr>,
               \<lparr>buf = drop w (rows ! m) @ (concat (drop (Suc m) rows) @ rest), good = True\<rparr>)"
    using cur len by (intro load_row) simp_all
  moreover have "?cur[m := take w (rows ! m) @ drop w (?cur ! m)]
                 = take (Suc m) rows @ drop (Suc m) rs"
    using take_drop_update [OF m] len cur(2) by simp
  ultimately have row: "for_loop [0..<w] (\<lambda>j (img, s).
           case stream_read (g m j) s of (gray, s') \<Rightarrow>
             bind_err (data_write img m j gray) (\<lambda>img'. Inr (img', s')))
           (?img, \<lparr>buf = concat (drop m rows) @ rest, good = True\<rparr>)
        = Inr (img\<lparr>m_data := Some (take (Suc m) rows @ drop (Suc m) rs)\<rparr>,
               \<lparr>buf = concat (drop (Suc m) rows) @ rest, good = True\<rparr>)"
    using len by (simp add: split)
  have "for_loop [0..<m] (\<lambda>i. for_loop [0..<w] (\<lambda>j (img, s).
           case stream_read (g i j) s of (gray, s') \<Rightarrow>
             bind_err (data_write img i j gray) (\<lambda>img'. Inr (img', s'))))
           (img, \<lparr>buf = concat rows @ rest, good = True\<rparr>)
        = Inr (?img, \<lparr>buf = concat (drop m rows) @ rest, good = True\<rparr>)"
    using Suc by simp
  then show ?case
    by (simp only: for_loop_Suc bind_err_Inr row)
qed

lemma load_file:
  assumes "length rows = unat h" "\<forall>r \<in> set rows. length r = unat w"
    and "m_data this = None \<or> (\<exists>old. m_data this = Some old \<and> unat h \<le> length old)"
  shows "load g this (Some (header w h @ concat rows))
         = Inr (True, \<lparr>m_data = Some rows, m_width = w, m_height = h, m_isGrayscale = True\<rparr>)"
proof -
  let ?this = "this\<lparr>m_isGrayscale := True, m_width := w, m_height := h\<rparr>"
  let ?t = "?this\<lparr>m_data := None\<rparr>"
  let ?rs = "map (\<lambda>i. map (\<lambda>j. g i j) [0..<unat w]) [0..<unat h]"
  have de: "deallocateMemory ?this = Inr ?t"
    using assms(3) by (auto simp: deallocateMemory_def)
  have al: "allocateMemory g ?t = ?t\<lparr>m_data := Some ?rs\<rparr>"
    by (simp add: allocateMemory_def)
  have s1: "extract_string \<lparr>buf = header w h @ concat rows, good = True\<rparr>
        = (P5, \<lparr>buf = 10 # decimal (unat w) @ 32 # decimal (unat h)
                       @ [10, 50, 53, 53, 10] @ concat rows, good = True\<rparr>)"
    by (rule extract_string_header)
  have s2: "extract_unsigned \<lparr>buf = 10 # decimal (unat w) @ 32 # decimal (unat h)
                       @ [10, 50, 53, 53, 10] @ concat rows, good = True\<rparr> (m_width this)
        = (w, \<lparr>buf = 32 # decimal (unat h) @ [10, 50, 53, 53, 10] @ concat rows, good = True\<rparr>)"
    by (rule extract_unsigned_decimal) simp_all
  have s3: "extract_unsigned \<lparr>buf = 32 # decimal (unat h) @ [10, 50, 53, 53, 10] @ concat rows,
                               good = True\<rparr> (m_height this)
        = (h, \<lparr>buf = [10, 50, 53, 53, 10] @ concat rows, good = True\<rparr>)"
    using extract_unsigned_decimal [of 10 32 h "[50, 53, 53, 10] @ concat rows" "m_height this"]
    by simp
  have s4: "stream_get (extract_int \<lparr>buf = [10, 50, 53, 53, 10] @ concat rows, good = True\<rparr>)
        = \<lparr>buf = concat rows @ [], good = True\<rparr>"
    using extract_int_255 [of "concat rows"] by (simp add: stream_get_def)
  have loops: "for_loop [0..<unat h] (\<lambda>i. for_loop [0..<unat w] (\<lambda>j (img, s).
           case stream_read (g i j) s of (gray, s') \<Rightarrow>
             bind_err (data_write img i j gray) (\<lambda>img'. Inr (img', s'))))
           (?t\<lparr>m_data := Some ?rs\<rparr>, \<lparr>buf = concat rows @ [], good = True\<rparr>)
        = Inr ((?t\<lparr>m_data := Some ?rs\<rparr>)\<lparr>m_data := Some (take (unat h) rows @ drop (unat h) ?rs)\<rparr>,
               \<lparr>buf = concat (drop (unat h) rows) @ [], good = True\<rparr>)"
    using assms(1,2) by (intro load_rows) simp_all
  show ?thesis
    unfolding load_def
    by (simp only: option.case s1 prod.case s2 s3 s4 de al loops bind_err_Inr simp_thms if_False)
       (simp add: assms(1))
qed

text \<open>
  Claim C2. For every image with width and height at least 1, \<open>save\<close> writes a file
  from which \<open>load\<close>, into a default-constructed image or into the image itself,
  returns true with an image of the same dimensions and the same value at every pixel.
\<close>

theorem save_load_round_trip:
  assumes "wf_image img" "1 \<le> unat (m_width img)" "1 \<le> unat (m_height img)"
  shows "\<exists>file img'. save True img = Inr (True, file)
           \<and> load g Image_default (Some file) = Inr (True, img')
           \<and> load g img (Some file) = Inr (True, img')
           \<and> wf_image img' \<and> m_width img' = m_width img \<and> m_height img' = m_height img
           \<and> (\<forall>i<unat (m_height img). \<forall>j<unat (m_width img). pixel img' j i = pixel img j i)"
proof -
  obtain rows where rows: "m_data img = Some rows"
    using assms(1,2) by (cases "m_data img") (simp_all add: wf_image_def)
  with assms(1) have len: "length rows = unat (m_height img)"
    "\<forall>r \<in> set rows. length r = unat (m_width img)"
    by (simp_all add: wf_image_def)
  let ?file = "header (m_width img) (m_height img) @ concat rows"
  let ?img' = "\<lparr>m_data = Some rows, m_width = m_width img, m_height = m_height img,
                 m_isGrayscale = True\<rparr>"
  have "save True img = Inr (True, ?file)"
    by (rule save_bytes [OF assms(1) rows])
  moreover have "load g Image_default (Some ?file) = Inr (True, ?img')"
    by (rule load_file [OF len]) (simp add: Image_default_def)
  moreover have "load g img (Some ?file) = Inr (True, ?img')"
    by (rule load_file [OF len]) (simp add: rows len)
  moreover have "wf_image ?img'"
    using len by (simp add: wf_image_def)
  moreover have "pixel ?img' j i = pixel img j i" for i j
    by (simp add: pixel_def rows)
  ultimately show ?thesis
    by (intro exI [of _ ?file] exI [of _ ?img']) simp
qed

theorem save_load_round_trip_witness:
  "wf_image \<lparr>m_data = Some [[1, 2], [3, 4]], m_width = 2, m_height = 2, m_isGrayscale = True\<rparr>
   \<and> (\<exists>file img'.
        save True \<lparr>m_data = Some [[1, 2], [3, 4]], m_width = 2, m_height = 2,
                   m_isGrayscale = True\<rparr> = Inr (True, file)
        \<and> load zero_garbage Image_default (Some file) = Inr (True, img')
        \<and> pixel img' 0 0 = 1 \<and> pixel img' 1 0 = 2 \<and> pixel img' 0 1 = 3 \<and> pixel img' 1 1 = 4)"
proof -
  let ?img = "\<lparr>m_data = Some [[1, 2], [3, 4]], m_width = 2, m_height = 2, m_isGrayscale = True\<rparr>"
  have wf: "wf_image ?img"
    by (simp add: wf_image_def)
  have dims: "1 \<le> unat (m_width ?img)" "1 \<le> unat (m_height ?img)"
    by simp_all
  from save_load_round_trip [OF wf dims, of zero_garbage]
  obtain bytes img' where r: "save True ?img = Inr (True, bytes)"
    "load zero_garbage Image_default (Some bytes) = Inr (True, img')"
    "\<forall>i<unat (m_height ?img). \<forall>j<unat (m_width ?img). pixel img' j i = pixel ?img j i"
    by blast
  from r(3) have "pixel img' 0 0 = 1" "pixel img' 1 0 = 2" "pixel img' 0 1 = 3" "pixel img' 1 1 = 4"
    by (simp_all add: pixel_def)
  with r(1,2) wf show ?thesis by blast
qed

text \<open>The bytes of a 2 by 2 image: \<open>P5\<close>, \<open>2 2\<close>, \<open>255\<close> and the four pixels.\<close>

lemma save_example:
  "save True \<lparr>m_data = Some [[1, 2], [3, 4]], m_width = 2, m_height = 2, m_isGrayscale = True\<rparr>
   = Inr (True, [80, 53, 10, 50, 32, 50, 10, 50, 53, 53, 10, 1, 2, 3, 4])"
  by (simp add: save_def header_def data_read_def upt_rec decimal.simps)

end
